theory Spec2Isabelle
  imports Complex_Main
begin

section \<open>Crawl-progress tracking of the knowledge-base page\<close>

text \<open>
  The page component \<^verbatim>\<open>KnowledgeBasePage\<close> keeps the list of tracked crawl and
  upload jobs in React state and mirrors it in \<^verbatim>\<open>localStorage\<close>. The source
  file still carries the markers of an unfinished merge; wherever the two sides
  differ, this development follows the side after the \<^verbatim>\<open>=======\<close> marker
  (the one that verifies persisted jobs against the server before restoring
  them). The progress handlers lie outside the conflicting regions.
\<close>

subsection \<open>Data\<close>

text \<open>
  \<^verbatim>\<open>CrawlProgressData\<close>: the fields that the page reads or writes. A field
  that a JavaScript object may lack is an option, \<open>None\<close> standing for
  \<^verbatim>\<open>undefined\<close>. \<open>needsVerification\<close> is the flag \<^verbatim>\<open>_needsVerification\<close>.
\<close>

record item =
  progressId :: string
  status :: "string option"
  error :: "string option"
  message :: "string option"
  progress :: "int option"
  uploadType :: "string option"
  fileName :: "string option"
  currentUrl :: "string option"
  startedAt :: "int option"
  lastUpdated :: "int option"
  needsVerification :: bool

text \<open>
  The text stored under one \<^verbatim>\<open>localStorage\<close> key, as far as the page can tell
  the cases apart: the empty string (falsy in JavaScript), a text on which
  \<^verbatim>\<open>JSON.parse\<close> or the first property access throws, or the JSON text of a
  value. \<^verbatim>\<open>JSON.parse (JSON.stringify v)\<close> gives \<open>v\<close> back, so a written
  value is stored as itself.
\<close>

datatype 'a stored = EmptyText | Malformed | Json 'a

text \<open>
  What a handler leaves behind: it returns, or an exception leaves it; the
  state reached so far is kept in both cases.
\<close>

datatype 'w outcome = Returned 'w | Threw 'w

text \<open>
  A pending \<^verbatim>\<open>setTimeout\<close> callback. The only one the tracker registers is
  the removal of a failed item; its closure holds the job id and the
  \<^verbatim>\<open>progressItems\<close> binding of the render that created the handler.
\<close>

datatype callback = RemoveFailed string "item list"

text \<open>
  The state of the page and of its collaborators. The key \<^verbatim>\<open>active_crawls\<close>
  and the keys \<^verbatim>\<open>crawl_progress_<id>\<close> never coincide, so the store is kept
  as two components. \<open>activeWrites\<close> logs every value written to
  \<^verbatim>\<open>active_crawls\<close>, \<open>refreshes\<close> counts the calls of
  \<^verbatim>\<open>loadKnowledgeItems\<close>, \<open>toasts\<close> logs \<^verbatim>\<open>showToast\<close>, \<open>stopCalls\<close>
  logs the calls of \<^verbatim>\<open>knowledgeBaseService.stopCrawl\<close>, and \<open>timers\<close> holds
  the pending timeouts with the milliseconds left.
\<close>

record world =
  progressItems :: "item list"
  showCrawlingTab :: bool
  activeCrawls :: "string list stored option"
  snapshots :: "string \<rightharpoonup> item stored"
  activeWrites :: "string list list"
  refreshes :: nat
  toasts :: "(string \<times> string) list"
  stopCalls :: "string list"
  timers :: "(nat \<times> callback) list"

subsection \<open>The setter of the tracked list\<close>

text \<open>
  \<^verbatim>\<open>Map.prototype.set\<close> on the entries of a JavaScript \<^verbatim>\<open>Map\<close>, which keeps
  insertion order: a new key goes to the end, an existing key keeps its place
  and takes the new value.
\<close>

fun mapSet :: "(string \<times> 'v) list \<Rightarrow> string \<Rightarrow> 'v \<Rightarrow> (string \<times> 'v) list" where
  "mapSet [] k v = [(k, v)]"
| "mapSet ((k', v') # m) k v =
     (if k' = k then (k', v) # m else (k', v') # mapSet m k v)"

text \<open>\<^verbatim>\<open>new Map(entries)\<close>: the entries are set one after the other.\<close>

definition newMap :: "(string \<times> 'v) list \<Rightarrow> (string \<times> 'v) list" where
  "newMap entries = foldl (\<lambda>m (k, v). mapSet m k v) [] entries"

text \<open>The argument of the setter: an array, or a function of the previous list.\<close>

datatype updater = Items "item list" | Updater "item list \<Rightarrow> item list"

text \<open>
  \<^verbatim>\<open>setProgressItems\<close>: the wrapper around the raw React setter.
  \<^verbatim>\<open>typeof updater === 'function' ? updater(prev) : updater\<close>, then the items
  pass through a \<^verbatim>\<open>Map\<close> keyed by \<^verbatim>\<open>progressId\<close>.
\<close>

definition setProgressItems :: "updater \<Rightarrow> item list \<Rightarrow> item list" where
  "setProgressItems updater prev =
     (let newItems = (case updater of Updater f \<Rightarrow> f prev | Items xs \<Rightarrow> xs);
          itemMap = newMap (map (\<lambda>item. (progressId item, item)) newItems)
      in map snd itemMap)"

subsection \<open>Collaborators\<close>

text \<open>
  \<^verbatim>\<open>JSON.parse(localStorage.getItem('active_crawls') || '[]')\<close>: a missing key
  and the empty string both read as the empty array; \<open>None\<close> stands for the
  exception of \<^verbatim>\<open>JSON.parse\<close>.
\<close>

definition parseActive :: "string list stored option \<Rightarrow> string list option" where
  "parseActive cell =
     (case cell of
        None \<Rightarrow> Some []
      | Some EmptyText \<Rightarrow> Some []
      | Some Malformed \<Rightarrow> None
      | Some (Json ids) \<Rightarrow> Some ids)"

text \<open>\<^verbatim>\<open>localStorage.setItem('active_crawls', JSON.stringify(ids))\<close>\<close>

definition setActive :: "string list \<Rightarrow> world \<Rightarrow> world" where
  "setActive ids w = w\<lparr>activeCrawls := Some (Json ids), activeWrites := activeWrites w @ [ids]\<rparr>"

text \<open>\<^verbatim>\<open>localStorage.removeItem(`crawl_progress_${id}`)\<close>\<close>

definition removeSnapshot :: "string \<Rightarrow> world \<Rightarrow> world" where
  "removeSnapshot pid w = w\<lparr>snapshots := (snapshots w)(pid := None)\<rparr>"

text \<open>\<^verbatim>\<open>ids.forEach(id => localStorage.removeItem(`crawl_progress_${id}`))\<close>\<close>

definition removeSnapshots :: "string list \<Rightarrow> world \<Rightarrow> world" where
  "removeSnapshots ids w = foldl (\<lambda>w' pid. removeSnapshot pid w') w ids"

definition showToast :: "string \<Rightarrow> string \<Rightarrow> world \<Rightarrow> world" where
  "showToast msg kind w = w\<lparr>toasts := toasts w @ [(msg, kind)]\<rparr>"

text \<open>
  \<^verbatim>\<open>loadKnowledgeItems\<close> reloads the list of knowledge items from the server;
  for the tracker only the call itself matters.
\<close>

definition loadKnowledgeItems :: "world \<Rightarrow> world" where
  "loadKnowledgeItems w = w\<lparr>refreshes := Suc (refreshes w)\<rparr>"

definition setTimeout :: "callback \<Rightarrow> nat \<Rightarrow> world \<Rightarrow> world" where
  "setTimeout cb ms w = w\<lparr>timers := timers w @ [(ms, cb)]\<rparr>"

text \<open>A value inside a template literal: \<^verbatim>\<open>undefined\<close> prints as its name.\<close>

definition render :: "string option \<Rightarrow> string" where
  "render v = (case v of None \<Rightarrow> ''undefined'' | Some s \<Rightarrow> s)"

text \<open>The test \<^verbatim>\<open>if (progressId)\<close>: \<^verbatim>\<open>undefined\<close> and the empty string are falsy.\<close>

definition truthy :: "string option \<Rightarrow> string option" where
  "truthy v = (case v of None \<Rightarrow> None | Some s \<Rightarrow> if s = [] then None else Some s)"

fun stateOf :: "'w outcome \<Rightarrow> 'w" where
  "stateOf (Returned w) = w"
| "stateOf (Threw w) = w"

fun returns :: "'w outcome \<Rightarrow> bool" where
  "returns (Returned w) = True"
| "returns (Threw w) = False"

subsection \<open>The progress handlers\<close>

text \<open>
  \<^verbatim>\<open>handleProgressComplete\<close>. The updater passed to the setter also hides the
  crawling tab when nothing is left.
\<close>

definition handleProgressComplete :: "item \<Rightarrow> world \<Rightarrow> world outcome" where
  "handleProgressComplete data w =
     (let w1 = removeSnapshot (progressId data) w in
      case parseActive (activeCrawls w1) of
        None \<Rightarrow> Threw w1
      | Some activeCrawls' \<Rightarrow>
          let updated = filter (\<lambda>id. id \<noteq> progressId data) activeCrawls';
              w2 = setActive updated w1;
              msg = (if uploadType data = Some ''document''
                     then ''Document '' @ [CHR 0x22] @ render (fileName data) @ [CHR 0x22]
                          @ '' uploaded successfully!''
                     else ''Crawling completed for '' @ render (currentUrl data) @ ''!'');
              w3 = showToast msg ''success'' w2;
              filtered = filter (\<lambda>item. progressId item \<noteq> progressId data) (progressItems w3);
              w4 = w3\<lparr>progressItems :=
                        setProgressItems
                          (Updater (filter (\<lambda>item. progressId item \<noteq> progressId data)))
                          (progressItems w3),
                      showCrawlingTab := (if length filtered = 0 then False else showCrawlingTab w3)\<rparr>
          in Returned (loadKnowledgeItems w4))"

text \<open>
  \<^verbatim>\<open>handleProgressError\<close>. \<open>rendered\<close> is the \<^verbatim>\<open>progressItems\<close> binding that
  the timeout callback closes over.
\<close>

definition handleProgressError ::
  "item list \<Rightarrow> string \<Rightarrow> string option \<Rightarrow> world \<Rightarrow> world outcome" where
  "handleProgressError rendered err pid' w =
     (case truthy pid' of
        Some pid \<Rightarrow>
          (let w1 = w\<lparr>progressItems :=
                        setProgressItems
                          (Updater (map (\<lambda>item. if progressId item = pid
                                                then item\<lparr>status := Some ''failed'', error := Some err\<rparr>
                                                else item)))
                          (progressItems w)\<rparr>;
               w2 = removeSnapshot pid w1
           in case parseActive (activeCrawls w2) of
                None \<Rightarrow> Threw w2
              | Some activeCrawls' \<Rightarrow>
                  let updated = filter (\<lambda>id. id \<noteq> pid) activeCrawls';
                      w3 = setActive updated w2;
                      w4 = setTimeout (RemoveFailed pid rendered) 5000 w3
                  in Returned (showToast (''Crawling failed: '' @ err) ''error'' w4))
      | None \<Rightarrow> Returned (showToast (''Crawling failed: '' @ err) ''error'' w))"

text \<open>The callback that \<^verbatim>\<open>handleProgressError\<close> registers.\<close>

fun runCallback :: "callback \<Rightarrow> world \<Rightarrow> world" where
  "runCallback (RemoveFailed pid rendered) w =
     w\<lparr>progressItems :=
         setProgressItems (Updater (filter (\<lambda>item. progressId item \<noteq> pid))) (progressItems w),
       showCrawlingTab := (if length rendered = 1 then False else showCrawlingTab w)\<rparr>"

text \<open>
  \<open>ms\<close> milliseconds pass: the timeouts that are due run, the earliest
  first and in the order of registration among equals; the others wait on.
\<close>

definition elapse :: "nat \<Rightarrow> world \<Rightarrow> world" where
  "elapse ms w =
     (let due = sort_key fst (filter (\<lambda>t. fst t \<le> ms) (timers w));
          waiting = map (\<lambda>t. (fst t - ms, snd t)) (filter (\<lambda>t. \<not> fst t \<le> ms) (timers w))
      in foldl (\<lambda>w' t. runCallback (snd t) w') (w\<lparr>timers := waiting\<rparr>) due)"

text \<open>
  The job id and the list that a callback closes over, and the callbacks of
  the timeouts that are due after \<open>ms\<close> milliseconds.
\<close>

fun callbackId :: "callback \<Rightarrow> string" where
  "callbackId (RemoveFailed pid rendered) = pid"

fun callbackItems :: "callback \<Rightarrow> item list" where
  "callbackItems (RemoveFailed pid rendered) = rendered"

definition dueCallbacks :: "nat \<Rightarrow> world \<Rightarrow> callback list" where
  "dueCallbacks ms w = map snd (filter (\<lambda>t. fst t \<le> ms) (timers w))"

text \<open>
  \<^verbatim>\<open>handleStopProgress\<close>. \<open>stopped\<close> tells whether the promise of
  \<^verbatim>\<open>stopCrawl\<close> resolved; a rejection, and any exception after it, ends in
  the \<^verbatim>\<open>catch\<close> block.
\<close>

definition handleStopProgress :: "string \<Rightarrow> bool \<Rightarrow> world \<Rightarrow> world outcome" where
  "handleStopProgress pid stopped w =
     (let w0 = w\<lparr>stopCalls := stopCalls w @ [pid]\<rparr> in
      if \<not> stopped then Returned (showToast ''Failed to stop crawl'' ''error'' w0)
      else
        let w1 = w0\<lparr>progressItems :=
                      setProgressItems
                        (Updater (map (\<lambda>item. if progressId item = pid
                                              then item\<lparr>status := Some ''cancelled''\<rparr>
                                              else item)))
                        (progressItems w0)\<rparr>
        in case parseActive (activeCrawls w1) of
             None \<Rightarrow> Returned (showToast ''Failed to stop crawl'' ''error'' w1)
           | Some activeCrawls' \<Rightarrow>
               Returned (setActive (filter (\<lambda>id. id \<noteq> pid) activeCrawls') w1))"

text \<open>\<^verbatim>\<open>handleDismissProgress\<close>\<close>

definition handleDismissProgress :: "item list \<Rightarrow> string \<Rightarrow> world \<Rightarrow> world outcome" where
  "handleDismissProgress rendered pid w =
     (let w1 = w\<lparr>progressItems :=
                   setProgressItems (Updater (filter (\<lambda>item. progressId item \<noteq> pid)))
                     (progressItems w),
                 showCrawlingTab := (if length rendered = 1 then False else showCrawlingTab w)\<rparr>;
          w2 = removeSnapshot pid w1
      in case parseActive (activeCrawls w2) of
           None \<Rightarrow> Threw w2
         | Some activeCrawls' \<Rightarrow>
             Returned (setActive (filter (\<lambda>id. id \<noteq> pid) activeCrawls') w2))"

text \<open>\<^verbatim>\<open>handleStartCrawl\<close>; \<open>now\<close> is the reading of \<^verbatim>\<open>Date.now()\<close>.\<close>

definition handleStartCrawl :: "string \<Rightarrow> item \<Rightarrow> int \<Rightarrow> world \<Rightarrow> world outcome" where
  "handleStartCrawl pid initialData now w =
     (let newProgressItem =
            initialData\<lparr>progressId := pid, status := Some ''starting'', progress := Some 0,
                        message := Some ''Starting crawl...''\<rparr>;
          w1 = w\<lparr>progressItems :=
                   setProgressItems (Updater (\<lambda>prev. prev @ [newProgressItem])) (progressItems w),
                 showCrawlingTab := True\<rparr>;
          w2 = w1\<lparr>snapshots :=
                    (snapshots w1)(pid \<mapsto> Json (newProgressItem\<lparr>startedAt := Some now\<rparr>))\<rparr>
      in case parseActive (activeCrawls w2) of
           None \<Rightarrow> Threw w2
         | Some activeCrawls' \<Rightarrow>
             if pid \<notin> set activeCrawls'
             then Returned (setActive (activeCrawls' @ [pid]) w2)
             else Returned w2)"

subsection \<open>Reconciliation on mount\<close>

text \<open>
  \<^verbatim>\<open>['completed', 'error', 'failed', 'cancelled'].includes(parsed.status)\<close>
\<close>

definition isCompleted :: "item \<Rightarrow> bool" where
  "isCompleted parsed =
     (case status parsed of
        None \<Rightarrow> False
      | Some s \<Rightarrow> s \<in> set [''completed'', ''error'', ''failed'', ''cancelled''])"

text \<open>
  \<^verbatim>\<open>startedAt = parsed.startedAt || now\<close> (a missing or zero time is falsy) and
  \<^verbatim>\<open>ageMinutes = (now - startedAt) / (1000 * 60)\<close>
\<close>

definition ageMinutes :: "int \<Rightarrow> item \<Rightarrow> real" where
  "ageMinutes now parsed =
     (let startedAt' = (case startedAt parsed of
                          None \<Rightarrow> now
                        | Some t \<Rightarrow> if t = 0 then now else t)
      in real_of_int (now - startedAt') / (1000 * 60))"

definition isStale :: "int \<Rightarrow> item \<Rightarrow> bool" where
  "isStale now parsed = (ageMinutes now parsed > 5)"

text \<open>
  The loop over the persisted ids, with its two accumulators. A missing
  snapshot and an empty one take the \<^verbatim>\<open>else\<close> branch, a snapshot that does
  not parse takes the \<^verbatim>\<open>catch\<close> branch. One reading of the clock serves
  the whole pass.
\<close>

fun classifyLoop ::
  "int \<Rightarrow> (string \<rightharpoonup> item stored) \<Rightarrow> string list \<Rightarrow> item list \<Rightarrow> string list
   \<Rightarrow> item list \<times> string list" where
  "classifyLoop now snaps [] restoredItems staleItems = (restoredItems, staleItems)"
| "classifyLoop now snaps (crawlId # rest) restoredItems staleItems =
     (case snaps crawlId of
        Some (Json parsed) \<Rightarrow>
          if isCompleted parsed \<or> isStale now parsed
          then classifyLoop now snaps rest restoredItems (staleItems @ [crawlId])
          else classifyLoop now snaps rest
                 (restoredItems @ [parsed\<lparr>progressId := crawlId, needsVerification := True\<rparr>])
                 staleItems
      | Some Malformed \<Rightarrow> classifyLoop now snaps rest restoredItems (staleItems @ [crawlId])
      | Some EmptyText \<Rightarrow> classifyLoop now snaps rest restoredItems (staleItems @ [crawlId])
      | None \<Rightarrow> classifyLoop now snaps rest restoredItems (staleItems @ [crawlId]))"

text \<open>
  The answer to \<^verbatim>\<open>fetch(`/api/progress/${id}`)\<close>: a response with its HTTP
  status, or a rejected promise. For one pass the server is a function of
  the job id.
\<close>

datatype response = Http nat | NetworkFailure

definition ok :: "nat \<Rightarrow> bool" where
  "ok code = (200 \<le> code \<and> code \<le> 299)"

fun verifyLoop ::
  "(string \<Rightarrow> response) \<Rightarrow> item list \<Rightarrow> item list \<Rightarrow> string list
   \<Rightarrow> item list \<times> string list" where
  "verifyLoop fetch [] verifiedItems itemsToRemove = (verifiedItems, itemsToRemove)"
| "verifyLoop fetch (item # rest) verifiedItems itemsToRemove =
     (case fetch (progressId item) of
        Http code \<Rightarrow>
          if ok code then verifyLoop fetch rest (verifiedItems @ [item]) itemsToRemove
          else if code = 404
          then verifyLoop fetch rest verifiedItems (itemsToRemove @ [progressId item])
          else verifyLoop fetch rest verifiedItems itemsToRemove
      | NetworkFailure \<Rightarrow>
          verifyLoop fetch rest verifiedItems (itemsToRemove @ [progressId item]))"

text \<open>
  \<^verbatim>\<open>verifyAndRestoreProgressItems\<close>, run to its end without another handler
  in between.
\<close>

definition verifyAndRestoreProgressItems ::
  "(string \<Rightarrow> response) \<Rightarrow> item list \<Rightarrow> world \<Rightarrow> world outcome" where
  "verifyAndRestoreProgressItems fetch itemsToVerify w =
     (case verifyLoop fetch itemsToVerify [] [] of
        (verifiedItems, itemsToRemove) \<Rightarrow>
          (case (if length itemsToRemove > 0
                 then (case parseActive (activeCrawls w) of
                         None \<Rightarrow> None
                       | Some activeCrawls' \<Rightarrow>
                           Some (removeSnapshots itemsToRemove
                                   (setActive
                                      (filter (\<lambda>id. id \<notin> set itemsToRemove) activeCrawls') w)))
                 else Some w) of
             None \<Rightarrow> Threw w
           | Some w1 \<Rightarrow>
               if length verifiedItems > 0
               then Returned (w1\<lparr>progressItems :=
                                  setProgressItems (Items verifiedItems) (progressItems w1)\<rparr>)
               else Returned (w1\<lparr>showCrawlingTab := False\<rparr>)))"

text \<open>
  The effect that checks for active progress on mount, followed by the
  verification it starts. The specification calls it
  \<^verbatim>\<open>reconcileOnStartup\<close>.
\<close>

definition reconcileOnStartup :: "int \<Rightarrow> (string \<Rightarrow> response) \<Rightarrow> world \<Rightarrow> world outcome" where
  "reconcileOnStartup now fetch w =
     (case parseActive (activeCrawls w) of
        None \<Rightarrow> Threw w
      | Some activeCrawls' \<Rightarrow>
          if length activeCrawls' > 0
          then
            (case classifyLoop now (snapshots w) activeCrawls' [] [] of
               (restoredItems, staleItems) \<Rightarrow>
                 let w1 = (if length staleItems > 0
                           then removeSnapshots staleItems
                                  (setActive
                                     (filter (\<lambda>id. id \<notin> set staleItems) activeCrawls') w)
                           else w)
                 in if length restoredItems > 0
                    then verifyAndRestoreProgressItems fetch restoredItems
                           (w1\<lparr>showCrawlingTab := True\<rparr>)
                    else Returned w1)
          else Returned w)"

subsection \<open>The two loops in closed form\<close>

text \<open>
  What one round of the first loop does with an id: \<open>None\<close> when the id is
  pushed to \<^verbatim>\<open>staleItems\<close>, the item pushed to \<^verbatim>\<open>restoredItems\<close> otherwise.
\<close>

definition queued :: "int \<Rightarrow> (string \<rightharpoonup> item stored) \<Rightarrow> string \<Rightarrow> item option" where
  "queued now snaps crawlId =
     (case snaps crawlId of
        Some (Json parsed) \<Rightarrow>
          if isCompleted parsed \<or> isStale now parsed then None
          else Some (parsed\<lparr>progressId := crawlId, needsVerification := True\<rparr>)
      | _ \<Rightarrow> None)"

text \<open>The two lists that the first loop builds.\<close>

definition staleIds :: "int \<Rightarrow> (string \<rightharpoonup> item stored) \<Rightarrow> string list \<Rightarrow> string list" where
  "staleIds now snaps xs = filter (\<lambda>crawlId. queued now snaps crawlId = None) xs"

definition queuedItems :: "int \<Rightarrow> (string \<rightharpoonup> item stored) \<Rightarrow> string list \<Rightarrow> item list" where
  "queuedItems now snaps xs = List.map_filter (queued now snaps) xs"

text \<open>
  The answers of the server as the second loop tells them apart: the job is
  still there (\<^verbatim>\<open>response.ok\<close>), or it is gone (status 404, or the request
  failed); any other answer is neither.
\<close>

definition confirmed :: "response \<Rightarrow> bool" where
  "confirmed r = (case r of Http code \<Rightarrow> ok code | NetworkFailure \<Rightarrow> False)"

definition gone :: "response \<Rightarrow> bool" where
  "gone r = (case r of Http code \<Rightarrow> \<not> ok code \<and> code = 404 | NetworkFailure \<Rightarrow> True)"

text \<open>The two lists that the second loop builds.\<close>

definition confirmedItems :: "(string \<Rightarrow> response) \<Rightarrow> item list \<Rightarrow> item list" where
  "confirmedItems fetch xs = filter (\<lambda>item. confirmed (fetch (progressId item))) xs"

definition goneIds :: "(string \<Rightarrow> response) \<Rightarrow> item list \<Rightarrow> string list" where
  "goneIds fetch xs = map progressId (filter (\<lambda>item. gone (fetch (progressId item))) xs)"

subsection \<open>The words of the specification\<close>

text \<open>
  A terminal status, as the specification lists them; the age of a snapshot
  in milliseconds, a missing or zero \<^verbatim>\<open>startedAt\<close> counting as the present;
  and the threshold of five minutes.
\<close>

definition terminal :: "string option \<Rightarrow> bool" where
  "terminal st = (st = Some ''completed'' \<or> st = Some ''failed'' \<or> st = Some ''cancelled'')"

definition age :: "int \<Rightarrow> item \<Rightarrow> int" where
  "age now snap = (case startedAt snap of None \<Rightarrow> 0 | Some t \<Rightarrow> if t = 0 then 0 else now - t)"

definition fiveMinutes :: int where
  "fiveMinutes = 5 * 60 * 1000"

text \<open>
  When an id is marked stale according to the specification: its snapshot is
  missing or does not parse, or has a terminal status, or is older than five
  minutes.
\<close>

definition claimedStale :: "int \<Rightarrow> item stored option \<Rightarrow> bool" where
  "claimedStale now cell =
     (case cell of
        Some (Json snap) \<Rightarrow> terminal (status snap) \<or> age now snap > fiveMinutes
      | _ \<Rightarrow> True)"

text \<open>The same with the status \<^verbatim>\<open>error\<close> counted among the finished ones.\<close>

definition markedStale :: "int \<Rightarrow> item stored option \<Rightarrow> bool" where
  "markedStale now cell =
     (case cell of
        Some (Json snap) \<Rightarrow>
          terminal (status snap) \<or> status snap = Some ''error'' \<or> age now snap > fiveMinutes
      | _ \<Rightarrow> True)"

subsection \<open>Events\<close>

text \<open>
  What can happen to the page, one event at a time. An exception ends the
  handler that raised it, not the page: the next event finds the state that
  the handler had reached. \<^verbatim>\<open>handleRetryProgress\<close> and
  \<^verbatim>\<open>handleRefreshItem\<close> depend on services that these sources do not
  contain and are left out; they too write the tracked list through
  \<^verbatim>\<open>setProgressItems\<close> only.
\<close>

datatype event =
    StartCrawl string item int
  | ProgressComplete item
  | ProgressError "item list" string "string option"
  | StopProgress string bool
  | DismissProgress "item list" string
  | Elapse nat
  | Mount int "string \<Rightarrow> response"

fun step :: "event \<Rightarrow> world \<Rightarrow> world" where
  "step (StartCrawl pid initialData now) w = stateOf (handleStartCrawl pid initialData now w)"
| "step (ProgressComplete data) w = stateOf (handleProgressComplete data w)"
| "step (ProgressError rendered err pid) w = stateOf (handleProgressError rendered err pid w)"
| "step (StopProgress pid stopped) w = stateOf (handleStopProgress pid stopped w)"
| "step (DismissProgress rendered pid) w = stateOf (handleDismissProgress rendered pid w)"
| "step (Elapse ms) w = elapse ms w"
| "step (Mount now fetch) w = stateOf (reconcileOnStartup now fetch w)"

definition run :: "event list \<Rightarrow> world \<Rightarrow> world" where
  "run events w = foldl (\<lambda>w' e. step e w') w events"

text \<open>
  A progress item with an id and a status and nothing else, and the page as
  \<^verbatim>\<open>useState\<close> initialises it, over a given store.
\<close>

definition job :: "string \<Rightarrow> string \<Rightarrow> item" where
  "job pid st =
     \<lparr>progressId = pid, status = Some st, error = None, message = None, progress = None,
      uploadType = None, fileName = None, currentUrl = None, startedAt = None,
      lastUpdated = None, needsVerification = False\<rparr>"

definition pageOnMount :: "string list stored option \<Rightarrow> (string \<rightharpoonup> item stored) \<Rightarrow> world" where
  "pageOnMount active snaps =
     \<lparr>progressItems = [], showCrawlingTab = False, activeCrawls = active, snapshots = snaps,
      activeWrites = [], refreshes = 0, toasts = [], stopCalls = [], timers = []\<rparr>"

text \<open>
  A page that tracks the given items, each with its snapshot in the store and
  its id in the persisted list.
\<close>

definition trackingPage :: "item list \<Rightarrow> world" where
  "trackingPage xs =
     (pageOnMount (Some (Json (map progressId xs)))
        (map_of (map (\<lambda>x. (progressId x, Json x)) xs)))
     \<lparr>progressItems := xs, showCrawlingTab := True\<rparr>"

text \<open>
  A store on mount, read at time 1000000: job \<open>a\<close> has completed, job \<open>b\<close>
  started more than five minutes ago, job \<open>c\<close> is recent and still crawling.
\<close>

definition threeJobs :: world where
  "threeJobs =
     pageOnMount (Some (Json [''a'', ''b'', ''c'']))
       [''a'' \<mapsto> Json ((job ''a'' ''completed'')\<lparr>startedAt := Some 900000\<rparr>),
        ''b'' \<mapsto> Json ((job ''b'' ''crawling'')\<lparr>startedAt := Some 1000\<rparr>),
        ''c'' \<mapsto> Json ((job ''c'' ''crawling'')\<lparr>startedAt := Some 900000\<rparr>)]"

abbreviation trackedIds :: "world \<Rightarrow> string list" where
  "trackedIds w \<equiv> map progressId (progressItems w)"


subsection \<open>Facts about the setter\<close>

lemma mapSet_keys:
  "map fst (mapSet m k v) = (if k \<in> fst ` set m then map fst m else map fst m @ [k])"
  by (induction m) force+

lemma mapSet_distinct: "distinct (map fst m) \<Longrightarrow> distinct (map fst (mapSet m k v))"
  by (simp add: mapSet_keys)

lemma foldl_mapSet_distinct:
  "distinct (map fst m) \<Longrightarrow> distinct (map fst (foldl (\<lambda>m (k, v). mapSet m k v) m es))"
  by (induction es arbitrary: m) (auto simp: mapSet_distinct)

lemma newMap_distinct: "distinct (map fst (newMap es))"
  by (simp add: newMap_def foldl_mapSet_distinct)

lemma mapSet_keyed:
  "\<forall>e \<in> set m. fst e = key (snd e) \<Longrightarrow> \<forall>e \<in> set (mapSet m (key v) v). fst e = key (snd e)"
  by (induction m) (fastforce split: if_splits)+

lemma foldl_mapSet_keyed:
  "\<forall>e \<in> set m. fst e = key (snd e) \<Longrightarrow>
   \<forall>e \<in> set (foldl (\<lambda>m (k, v). mapSet m k v) m (map (\<lambda>x. (key x, x)) xs)).
      fst e = key (snd e)"
proof (induction xs arbitrary: m)
  case Nil
  then show ?case by simp
next
  case (Cons x xs)
  have "\<forall>e \<in> set (mapSet m (key x) x). fst e = key (snd e)"
    using Cons.prems by (rule mapSet_keyed)
  from Cons.IH [OF this] show ?case by simp
qed

lemma newMap_keyed:
  "map fst (newMap (map (\<lambda>x. (key x, x)) xs)) = map key (map snd (newMap (map (\<lambda>x. (key x, x)) xs)))"
proof -
  have "\<forall>e \<in> set (newMap (map (\<lambda>x. (key x, x)) xs)). fst e = key (snd e)"
    unfolding newMap_def by (rule foldl_mapSet_keyed) simp
  then show ?thesis by (induction "newMap (map (\<lambda>x. (key x, x)) xs)") auto
qed

lemma setProgressItems_distinct: "distinct (map progressId (setProgressItems u prev))"
proof -
  have "distinct (map progressId (map snd (newMap (map (\<lambda>x. (progressId x, x)) xs))))"
    for xs :: "item list"
    using newMap_distinct [of "map (\<lambda>x. (progressId x, x)) xs"]
    by (simp only: newMap_keyed [of progressId xs])
  then show ?thesis
    by (simp add: setProgressItems_def Let_def)
qed

lemma mapSet_values: "set (map snd (mapSet m k v)) \<subseteq> insert v (set (map snd m))"
  by (induction m) (fastforce split: if_splits)+

lemma foldl_mapSet_values:
  "set (map snd (foldl (\<lambda>m (k, v). mapSet m k v) m es)) \<subseteq> set (map snd m) \<union> set (map snd es)"
proof (induction es arbitrary: m)
  case Nil
  then show ?case by simp
next
  case (Cons e es)
  obtain k v where e: "e = (k, v)" by (cases e)
  show ?case using Cons.IH [of "mapSet m k v"] mapSet_values [of m k v]
    by (auto simp: e)
qed

lemma foldl_mapSet_keys:
  "set (map fst (foldl (\<lambda>m (k, v). mapSet m k v) m es)) = set (map fst m) \<union> set (map fst es)"
proof (induction es arbitrary: m)
  case Nil
  then show ?case by simp
next
  case (Cons e es)
  obtain k v where e: "e = (k, v)" by (cases e)
  have "set (map fst (mapSet m k v)) = insert k (set (map fst m))"
    by (auto simp: mapSet_keys)
  then show ?case using Cons.IH [of "mapSet m k v"]
    by (auto simp: e)
qed

lemma foldl_mapSet_fresh:
  "distinct (map fst (m @ es)) \<Longrightarrow> foldl (\<lambda>m (k, v). mapSet m k v) m es = m @ es"
proof (induction es arbitrary: m)
  case Nil
  then show ?case by simp
next
  case (Cons e es)
  obtain k v where e: "e = (k, v)" by (cases e)
  have fresh: "k \<notin> fst ` set m" using Cons.prems by (auto simp: e)
  have "mapSet m k v = m @ [(k, v)]" using fresh by (induction m) auto
  moreover have "distinct (map fst ((m @ [(k, v)]) @ es))" using Cons.prems by (simp add: e)
  ultimately show ?case using Cons.IH [of "m @ [(k, v)]"] by (simp add: e)
qed

lemma mapSet_replace:
  "distinct (map key xs) \<Longrightarrow> key x \<in> key ` set xs \<Longrightarrow>
   map snd (mapSet (map (\<lambda>y. (key y, y)) xs) (key x) x) = map (\<lambda>y. if key y = key x then x else y) xs"
proof (induction xs)
  case Nil
  then show ?case by simp
next
  case (Cons y ys)
  show ?case
  proof (cases "key y = key x")
    case True
    then have "key x \<notin> key ` set ys" using Cons.prems(1) by auto
    then have "map (\<lambda>y. if key y = key x then x else y) ys = ys"
      by (induction ys) auto
    with True show ?thesis by (simp add: comp_def)
  next
    case False
    then show ?thesis using Cons by auto
  qed
qed

lemma setProgressItems_ids:
  "progressId ` set (setProgressItems (Items xs) prev) = progressId ` set xs"
proof -
  let ?es = "map (\<lambda>x. (progressId x, x)) xs"
  have "set (map fst (newMap ?es)) = set (map fst ?es)"
    unfolding newMap_def by (simp only: foldl_mapSet_keys) simp
  then have "set (map progressId (map snd (newMap ?es))) = set (map progressId xs)"
    by (simp only: newMap_keyed [symmetric]) (simp add: comp_def)
  then show ?thesis by (simp add: setProgressItems_def image_image)
qed

lemma setProgressItems_subset: "set (setProgressItems (Items xs) prev) \<subseteq> set xs"
proof -
  let ?es = "map (\<lambda>x. (progressId x, x)) xs"
  have "set (map snd (newMap ?es)) \<subseteq> set (map snd ?es)"
    unfolding newMap_def using foldl_mapSet_values [of "[]" ?es] by simp
  then show ?thesis by (simp add: setProgressItems_def comp_def)
qed

lemma setProgressItems_Updater: "setProgressItems (Updater f) prev = setProgressItems (Items (f prev)) prev"
  by (simp add: setProgressItems_def)

lemma setProgressItems_id:
  "distinct (map progressId xs) \<Longrightarrow> setProgressItems (Items xs) prev = xs"
proof -
  assume "distinct (map progressId xs)"
  then have "distinct (map fst ([] @ map (\<lambda>x. (progressId x, x)) xs))" by (simp add: comp_def)
  then have "newMap (map (\<lambda>x. (progressId x, x)) xs) = map (\<lambda>x. (progressId x, x)) xs"
    unfolding newMap_def by (simp only: foldl_mapSet_fresh) simp
  then show ?thesis by (simp add: setProgressItems_def comp_def)
qed

lemma newMap_snoc: "newMap (es @ [(k, v)]) = mapSet (newMap es) k v"
  by (simp add: newMap_def)

lemma setProgressItems_append:
  assumes "distinct (map progressId prev)"
  shows "setProgressItems (Updater (\<lambda>prev. prev @ [x])) prev =
         (if progressId x \<in> progressId ` set prev
          then map (\<lambda>y. if progressId y = progressId x then x else y) prev
          else prev @ [x])"
proof -
  let ?es = "map (\<lambda>x. (progressId x, x)) prev"
  have nm: "newMap ?es = ?es"
    using assms foldl_mapSet_fresh [of "[]" ?es] by (simp add: newMap_def comp_def)
  have "setProgressItems (Updater (\<lambda>prev. prev @ [x])) prev = map snd (mapSet ?es (progressId x) x)"
    by (simp add: setProgressItems_def newMap_snoc nm)
  also have "\<dots> = (if progressId x \<in> progressId ` set prev
          then map (\<lambda>y. if progressId y = progressId x then x else y) prev
          else prev @ [x])"
  proof (cases "progressId x \<in> progressId ` set prev")
    case True
    then show ?thesis using mapSet_replace [of progressId prev x] assms by simp
  next
    case False
    then have "progressId x \<notin> fst ` set ?es" by force
    then have "mapSet ?es (progressId x) x = ?es @ [(progressId x, x)]"
      by (induction prev) auto
    with False show ?thesis by (simp add: comp_def)
  qed
  finally show ?thesis .
qed

subsection \<open>The tracked ids stay distinct\<close>

lemma removeSnapshots_fields [simp]:
  "progressItems (removeSnapshots xs w) = progressItems w"
  "activeCrawls (removeSnapshots xs w) = activeCrawls w"
  "activeWrites (removeSnapshots xs w) = activeWrites w"
  "showCrawlingTab (removeSnapshots xs w) = showCrawlingTab w"
  "refreshes (removeSnapshots xs w) = refreshes w"
  "toasts (removeSnapshots xs w) = toasts w"
  "stopCalls (removeSnapshots xs w) = stopCalls w"
  "timers (removeSnapshots xs w) = timers w"
  unfolding removeSnapshots_def
  by (induction xs arbitrary: w; simp add: removeSnapshot_def)+

lemma removeSnapshots_snapshots [simp]:
  "snapshots (removeSnapshots xs w) pid = (if pid \<in> set xs then None else snapshots w pid)"
  unfolding removeSnapshots_def
  by (induction xs arbitrary: w) (auto simp: removeSnapshot_def)

lemma start_distinct: "distinct (trackedIds (stateOf (handleStartCrawl pid d now w)))"
  by (simp add: handleStartCrawl_def Let_def setActive_def setProgressItems_distinct
        split: option.splits)

lemma complete_distinct:
  "distinct (trackedIds w) \<Longrightarrow> distinct (trackedIds (stateOf (handleProgressComplete d w)))"
  by (simp add: handleProgressComplete_def Let_def setActive_def removeSnapshot_def showToast_def
        loadKnowledgeItems_def setProgressItems_distinct split: option.splits)

lemma error_distinct:
  "distinct (trackedIds w) \<Longrightarrow> distinct (trackedIds (stateOf (handleProgressError r e p w)))"
  by (simp add: handleProgressError_def Let_def setActive_def removeSnapshot_def showToast_def
        setTimeout_def setProgressItems_distinct split: option.splits)

lemma stop_distinct:
  "distinct (trackedIds w) \<Longrightarrow> distinct (trackedIds (stateOf (handleStopProgress p s w)))"
  by (simp add: handleStopProgress_def Let_def setActive_def showToast_def
        setProgressItems_distinct split: option.splits)

lemma dismiss_distinct: "distinct (trackedIds (stateOf (handleDismissProgress r p w)))"
  by (simp add: handleDismissProgress_def Let_def setActive_def removeSnapshot_def
        setProgressItems_distinct split: option.splits)

lemma callbacks_distinct:
  "distinct (trackedIds w) \<Longrightarrow> distinct (trackedIds (foldl (\<lambda>w' t. runCallback (snd t) w') w ts))"
proof (induction ts arbitrary: w)
  case Nil
  then show ?case by simp
next
  case (Cons t ts)
  obtain d pid r where t: "t = (d, RemoveFailed pid r)"
    by (cases t, cases "snd t") auto
  have "distinct (trackedIds (runCallback (snd t) w))"
    by (simp add: t setProgressItems_distinct)
  from Cons.IH [OF this] show ?case by simp
qed

lemma elapse_distinct: "distinct (trackedIds w) \<Longrightarrow> distinct (trackedIds (elapse ms w))"
  unfolding elapse_def Let_def by (rule callbacks_distinct) simp

lemma verify_distinct:
  "distinct (trackedIds w) \<Longrightarrow> distinct (trackedIds (stateOf (verifyAndRestoreProgressItems f xs w)))"
  by (simp add: verifyAndRestoreProgressItems_def setActive_def setProgressItems_distinct
        split: prod.splits option.splits)

lemma mount_distinct:
  "distinct (trackedIds w) \<Longrightarrow> distinct (trackedIds (stateOf (reconcileOnStartup now f w)))"
  by (auto simp: reconcileOnStartup_def Let_def setActive_def verify_distinct
        split: prod.splits option.splits)

lemma step_distinct: "distinct (trackedIds w) \<Longrightarrow> distinct (trackedIds (step e w))"
  by (cases e)
    (simp_all add: start_distinct complete_distinct error_distinct stop_distinct
       dismiss_distinct elapse_distinct mount_distinct)

lemma run_distinct: "distinct (trackedIds w) \<Longrightarrow> distinct (trackedIds (run es w))"
  unfolding run_def by (induction es arbitrary: w) (simp_all add: step_distinct)

subsection \<open>Facts about the handlers\<close>

lemma parseActive_setActive [simp]: "parseActive (activeCrawls (setActive xs w)) = Some xs"
  by (simp add: setActive_def parseActive_def)

lemma map_status_ids:
  "progressId ` set (map (\<lambda>item. if progressId item = pid then f item else item) xs) = progressId ` set xs"
  if "\<And>item. progressId (f item) = progressId item"
  using that by (induction xs) auto

lemma complete_once:
  assumes "parseActive (activeCrawls w) = Some xs"
  shows "handleProgressComplete d w = Returned (stateOf (handleProgressComplete d w))"
    and "refreshes (stateOf (handleProgressComplete d w)) = Suc (refreshes w)"
    and "progressId d \<notin> set (trackedIds (stateOf (handleProgressComplete d w)))"
    and "snapshots (stateOf (handleProgressComplete d w)) = (snapshots w)(progressId d := None)"
    and "activeCrawls (stateOf (handleProgressComplete d w)) = Some (Json (filter (\<lambda>id. id \<noteq> progressId d) xs))"
proof -
  have ids: "progressId d \<notin> progressId ` set (setProgressItems (Items (filter (\<lambda>item. progressId item \<noteq> progressId d) ys)) zs)" for ys zs
    by (simp only: setProgressItems_ids) auto
  show "handleProgressComplete d w = Returned (stateOf (handleProgressComplete d w))"
    using assms by (simp add: handleProgressComplete_def Let_def removeSnapshot_def)
  show "refreshes (stateOf (handleProgressComplete d w)) = Suc (refreshes w)"
    using assms by (simp add: handleProgressComplete_def Let_def removeSnapshot_def
        setActive_def showToast_def loadKnowledgeItems_def)
  show "progressId d \<notin> set (trackedIds (stateOf (handleProgressComplete d w)))"
    using assms ids by (simp add: handleProgressComplete_def Let_def removeSnapshot_def
        setActive_def showToast_def loadKnowledgeItems_def setProgressItems_Updater)
  show "snapshots (stateOf (handleProgressComplete d w)) = (snapshots w)(progressId d := None)"
    using assms by (simp add: handleProgressComplete_def Let_def removeSnapshot_def
        setActive_def showToast_def loadKnowledgeItems_def)
  show "activeCrawls (stateOf (handleProgressComplete d w)) = Some (Json (filter (\<lambda>id. id \<noteq> progressId d) xs))"
    using assms by (simp add: handleProgressComplete_def Let_def removeSnapshot_def
        setActive_def showToast_def loadKnowledgeItems_def)
qed

subsection \<open>Timeouts and the error handler\<close>

lemma callbacks_frame:
  "snapshots (foldl (\<lambda>w' t. runCallback (snd t) w') w ts) = snapshots w \<and>
   activeCrawls (foldl (\<lambda>w' t. runCallback (snd t) w') w ts) = activeCrawls w \<and>
   activeWrites (foldl (\<lambda>w' t. runCallback (snd t) w') w ts) = activeWrites w \<and>
   refreshes (foldl (\<lambda>w' t. runCallback (snd t) w') w ts) = refreshes w \<and>
   toasts (foldl (\<lambda>w' t. runCallback (snd t) w') w ts) = toasts w \<and>
   stopCalls (foldl (\<lambda>w' t. runCallback (snd t) w') w ts) = stopCalls w \<and>
   timers (foldl (\<lambda>w' t. runCallback (snd t) w') w ts) = timers w"
proof (induction ts arbitrary: w)
  case Nil
  then show ?case by simp
next
  case (Cons t ts)
  obtain d pid r where t: "t = (d, RemoveFailed pid r)"
    by (cases t, cases "snd t") auto
  show ?case using Cons.IH [of "runCallback (snd t) w"] by (simp add: t)
qed

lemma elapse_frame:
  "snapshots (elapse ms w) = snapshots w \<and>
   activeCrawls (elapse ms w) = activeCrawls w \<and>
   activeWrites (elapse ms w) = activeWrites w \<and>
   refreshes (elapse ms w) = refreshes w \<and>
   toasts (elapse ms w) = toasts w \<and>
   stopCalls (elapse ms w) = stopCalls w"
  unfolding elapse_def Let_def by (simp add: callbacks_frame)

lemma filter_out_ids:
  "set (map progressId (setProgressItems (Updater (filter (\<lambda>item. progressId item \<noteq> pid))) xs))
   = set (map progressId xs) - {pid}"
  by (simp only: setProgressItems_Updater set_map setProgressItems_ids) auto

lemma callbacks_keep_absent:
  "pid \<notin> set (trackedIds w) \<Longrightarrow>
   pid \<notin> set (trackedIds (foldl (\<lambda>w' t. runCallback (snd t) w') w ts))"
proof (induction ts arbitrary: w)
  case Nil
  then show ?case by simp
next
  case (Cons t ts)
  obtain d q r where t: "t = (d, RemoveFailed q r)"
    by (cases t, cases "snd t") auto
  have "pid \<notin> set (trackedIds (runCallback (snd t) w))"
    using Cons.prems filter_out_ids [of q "progressItems w"] by (simp add: t)
  from Cons.IH [OF this] show ?case by simp
qed

lemma callbacks_remove:
  "(d, RemoveFailed pid r) \<in> set ts \<Longrightarrow>
   pid \<notin> set (trackedIds (foldl (\<lambda>w' t. runCallback (snd t) w') w ts))"
proof (induction ts arbitrary: w)
  case Nil
  then show ?case by simp
next
  case (Cons t ts)
  show ?case
  proof (cases "t = (d, RemoveFailed pid r)")
    case True
    have "pid \<notin> set (trackedIds (runCallback (snd t) w))"
      using filter_out_ids [of pid "progressItems w"] by (simp add: True)
    from callbacks_keep_absent [OF this] show ?thesis by simp
  next
    case False
    then have "(d, RemoveFailed pid r) \<in> set ts" using Cons.prems by simp
    from Cons.IH [OF this] show ?thesis by simp
  qed
qed

lemma elapse_removes:
  assumes "(d, RemoveFailed pid r) \<in> set (timers w)" and "d \<le> ms"
  shows "pid \<notin> set (trackedIds (elapse ms w))"
proof -
  have "(d, RemoveFailed pid r) \<in> set (sort_key fst (filter (\<lambda>t. fst t \<le> ms) (timers w)))"
    using assms by simp
  then show ?thesis unfolding elapse_def Let_def by (rule callbacks_remove)
qed

lemma filter_distinct_ids:
  "distinct (map progressId xs) \<Longrightarrow>
   setProgressItems (Updater (filter P)) xs = filter P xs"
  by (simp add: setProgressItems_Updater setProgressItems_id distinct_map_filter)

lemma runCallback_exact:
  assumes "distinct (trackedIds w)"
  shows "runCallback c w =
     w\<lparr>progressItems := filter (\<lambda>item. progressId item \<noteq> callbackId c) (progressItems w),
       showCrawlingTab := (if length (callbackItems c) = 1 then False else showCrawlingTab w)\<rparr>"
  using assms by (cases c) (simp add: filter_distinct_ids)

lemma callbacks_exact:
  assumes "distinct (trackedIds w)"
  shows "foldl (\<lambda>w' t. runCallback (snd t) w') w ts =
     w\<lparr>progressItems :=
         filter (\<lambda>item. progressId item \<notin> callbackId ` snd ` set ts) (progressItems w),
       showCrawlingTab :=
         (if \<exists>t \<in> set ts. length (callbackItems (snd t)) = 1 then False else showCrawlingTab w)\<rparr>"
  using assms
proof (induction ts arbitrary: w)
  case Nil
  then show ?case by simp
next
  case (Cons t ts)
  let ?w1 = "runCallback (snd t) w"
  have w1: "?w1 = w\<lparr>progressItems := filter (\<lambda>item. progressId item \<noteq> callbackId (snd t)) (progressItems w),
       showCrawlingTab := (if length (callbackItems (snd t)) = 1 then False else showCrawlingTab w)\<rparr>"
    by (rule runCallback_exact [OF Cons.prems])
  have d: "distinct (trackedIds ?w1)"
    using Cons.prems by (simp add: w1 distinct_map_filter)
  have f: "filter (\<lambda>item. progressId item \<notin> callbackId ` snd ` set ts)
             (filter (\<lambda>item. progressId item \<noteq> callbackId (snd t)) (progressItems w))
           = filter (\<lambda>item. progressId item \<notin> callbackId ` snd ` set (t # ts)) (progressItems w)"
    by (auto intro: filter_cong)
  have "foldl (\<lambda>w' t. runCallback (snd t) w') w (t # ts) = foldl (\<lambda>w' t. runCallback (snd t) w') ?w1 ts"
    by simp
  also have "\<dots> = ?w1\<lparr>progressItems :=
         filter (\<lambda>item. progressId item \<notin> callbackId ` snd ` set ts) (progressItems ?w1),
       showCrawlingTab :=
         (if \<exists>t \<in> set ts. length (callbackItems (snd t)) = 1 then False else showCrawlingTab ?w1)\<rparr>"
    by (rule Cons.IH [OF d])
  also have "\<dots> = w\<lparr>progressItems :=
         filter (\<lambda>item. progressId item \<notin> callbackId ` snd ` set (t # ts)) (progressItems w),
       showCrawlingTab :=
         (if \<exists>t \<in> set (t # ts). length (callbackItems (snd t)) = 1 then False else showCrawlingTab w)\<rparr>"
    unfolding w1 using f by simp
  finally show ?case .
qed

lemma elapse_exact:
  assumes "distinct (trackedIds w)"
  shows "elapse ms w =
     w\<lparr>timers := map (\<lambda>t. (fst t - ms, snd t)) (filter (\<lambda>t. \<not> fst t \<le> ms) (timers w)),
       progressItems :=
         filter (\<lambda>item. progressId item \<notin> callbackId ` set (dueCallbacks ms w)) (progressItems w),
       showCrawlingTab :=
         (if \<exists>c \<in> set (dueCallbacks ms w). length (callbackItems c) = 1
          then False else showCrawlingTab w)\<rparr>"
proof -
  let ?w0 = "w\<lparr>timers := map (\<lambda>t. (fst t - ms, snd t)) (filter (\<lambda>t. \<not> fst t \<le> ms) (timers w))\<rparr>"
  let ?due = "sort_key fst (filter (\<lambda>t. fst t \<le> ms) (timers w))"
  have d: "distinct (trackedIds ?w0)" using assms by simp
  have s: "snd ` set ?due = set (dueCallbacks ms w)"
    by (simp add: dueCallbacks_def)
  have b: "(\<exists>t \<in> set ?due. length (callbackItems (snd t)) = 1)
           = (\<exists>c \<in> set (dueCallbacks ms w). length (callbackItems c) = 1)"
    by (auto simp: dueCallbacks_def)
  have i: "callbackId ` snd ` set ?due = callbackId ` set (dueCallbacks ms w)"
    by (simp only: s)
  have "elapse ms w = foldl (\<lambda>w' t. runCallback (snd t) w') ?w0 ?due"
    by (simp add: elapse_def)
  also have "\<dots> = ?w0\<lparr>progressItems :=
         filter (\<lambda>item. progressId item \<notin> callbackId ` snd ` set ?due) (progressItems ?w0),
       showCrawlingTab :=
         (if \<exists>t \<in> set ?due. length (callbackItems (snd t)) = 1 then False else showCrawlingTab ?w0)\<rparr>"
    by (rule callbacks_exact [OF d])
  finally show ?thesis by (simp only: i b) simp
qed

lemma map_marked_ids:
  "map progressId
     (map (\<lambda>item. if progressId item = pid then item\<lparr>status := st, error := e\<rparr> else item) xs)
   = map progressId xs"
  by (induction xs) simp_all

lemma marked_items:
  assumes "x \<in> set (map (\<lambda>item. if progressId item = pid then item\<lparr>status := Some st, error := e\<rparr> else item) xs)"
    and "progressId x = pid"
  shows "status x = Some st \<and> error x = e"
proof -
  from assms(1) obtain y
    where y: "x = (if progressId y = pid then y\<lparr>status := Some st, error := e\<rparr> else y)"
    by (auto simp only: set_map image_iff)
  show ?thesis
  proof (cases "progressId y = pid")
    case True
    with y have "x = y\<lparr>status := Some st, error := e\<rparr>" by simp
    then show ?thesis by simp
  next
    case False
    with y have "x = y" by simp
    with False assms(2) show ?thesis by simp
  qed
qed

lemma error_with_id:
  assumes "pid \<noteq> []" and "parseActive (activeCrawls w) = Some xs"
  shows "handleProgressError rendered err (Some pid) w =
     Returned (w\<lparr>progressItems :=
                    setProgressItems
                      (Items (map (\<lambda>item. if progressId item = pid
                                            then item\<lparr>status := Some ''failed'', error := Some err\<rparr>
                                            else item) (progressItems w)))
                      (progressItems w),
                 snapshots := (snapshots w)(pid := None),
                 activeCrawls := Some (Json (filter (\<lambda>id. id \<noteq> pid) xs)),
                 activeWrites := activeWrites w @ [filter (\<lambda>id. id \<noteq> pid) xs],
                 timers := timers w @ [(5000, RemoveFailed pid rendered)],
                 toasts := toasts w @ [(''Crawling failed: '' @ err, ''error'')]\<rparr>)"
  using assms
  by (simp add: handleProgressError_def truthy_def Let_def removeSnapshot_def setActive_def
      setTimeout_def showToast_def setProgressItems_Updater)

subsection \<open>The stop handler\<close>



subsection \<open>Reconciliation\<close>

lemma classifyLoop_closed:
  "classifyLoop now snaps xs r s = (r @ queuedItems now snaps xs, s @ staleIds now snaps xs)"
proof (induction xs arbitrary: r s)
  case Nil
  then show ?case by (simp add: queuedItems_def staleIds_def)
next
  case (Cons x xs)
  show ?case
  proof (cases "queued now snaps x")
    case None
    then have "classifyLoop now snaps (x # xs) r s = classifyLoop now snaps xs r (s @ [x])"
      by (auto simp: queued_def split: option.splits stored.splits if_splits)
    with None show ?thesis
      by (simp add: Cons.IH queuedItems_def staleIds_def)
  next
    case (Some q)
    then have "classifyLoop now snaps (x # xs) r s = classifyLoop now snaps xs (r @ [q]) s"
      by (auto simp: queued_def split: option.splits stored.splits if_splits)
    with Some show ?thesis
      by (simp add: Cons.IH queuedItems_def staleIds_def)
  qed
qed

lemma verifyLoop_closed:
  "verifyLoop fetch xs v r = (v @ confirmedItems fetch xs, r @ goneIds fetch xs)"
proof (induction xs arbitrary: v r)
  case Nil
  then show ?case by (simp add: confirmedItems_def goneIds_def)
next
  case (Cons x xs)
  show ?case
    by (cases "fetch (progressId x)")
      (simp_all add: Cons.IH confirmedItems_def goneIds_def confirmed_def gone_def)
qed

lemma queuedItems_ids:
  "map progressId (queuedItems now snaps xs) = filter (\<lambda>crawlId. queued now snaps crawlId \<noteq> None) xs"
proof (induction xs)
  case Nil
  then show ?case by (simp add: queuedItems_def)
next
  case (Cons x xs)
  then show ?case
    by (cases "queued now snaps x")
      (auto simp: queuedItems_def queued_def
         split: option.splits stored.splits if_splits)
qed

lemma queuedItems_nil: "queuedItems now snaps [] = []"
  by (simp add: queuedItems_def)

lemma parseActive_Json [simp]: "parseActive (Some (Json xs)) = Some xs"
  by (simp add: parseActive_def)

lemma verify_result:
  assumes "parseActive (activeCrawls w) = Some xs"
  shows "returns (verifyAndRestoreProgressItems fetch items w)"
    and "parseActive (activeCrawls (stateOf (verifyAndRestoreProgressItems fetch items w)))
         = Some (filter (\<lambda>id. id \<notin> set (goneIds fetch items)) xs)"
    and "snapshots (stateOf (verifyAndRestoreProgressItems fetch items w)) pid
         = (if pid \<in> set (goneIds fetch items) then None else snapshots w pid)"
    and "progressItems (stateOf (verifyAndRestoreProgressItems fetch items w))
         = (if confirmedItems fetch items \<noteq> []
            then setProgressItems (Items (confirmedItems fetch items)) []
            else progressItems w)"
    and "activeWrites (stateOf (verifyAndRestoreProgressItems fetch items w))
         = activeWrites w @ (if goneIds fetch items \<noteq> []
                             then [filter (\<lambda>id. id \<notin> set (goneIds fetch items)) xs] else [])"
  using assms
  by (simp_all add: verifyAndRestoreProgressItems_def verifyLoop_closed setActive_def
      setProgressItems_def)


lemma reconcile_result:
  assumes "parseActive (activeCrawls w) = Some xs"
  shows "returns (reconcileOnStartup now fetch w)"
    and "parseActive (activeCrawls (stateOf (reconcileOnStartup now fetch w)))
         = Some (filter (\<lambda>id. id \<notin> set (goneIds fetch (queuedItems now (snapshots w) xs)))
                  (filter (\<lambda>id. id \<notin> set (staleIds now (snapshots w) xs)) xs))"
    and "snapshots (stateOf (reconcileOnStartup now fetch w)) pid
         = (if pid \<in> set (staleIds now (snapshots w) xs)
               \<or> pid \<in> set (goneIds fetch (queuedItems now (snapshots w) xs))
            then None else snapshots w pid)"
    and "progressItems (stateOf (reconcileOnStartup now fetch w))
         = (if confirmedItems fetch (queuedItems now (snapshots w) xs) \<noteq> []
            then setProgressItems (Items (confirmedItems fetch (queuedItems now (snapshots w) xs))) []
            else progressItems w)"
    and "activeWrites (stateOf (reconcileOnStartup now fetch w))
         = activeWrites w
           @ (if staleIds now (snapshots w) xs \<noteq> []
              then [filter (\<lambda>id. id \<notin> set (staleIds now (snapshots w) xs)) xs] else [])
           @ (if goneIds fetch (queuedItems now (snapshots w) xs) \<noteq> []
              then [filter (\<lambda>id. id \<notin> set (goneIds fetch (queuedItems now (snapshots w) xs)))
                      (filter (\<lambda>id. id \<notin> set (staleIds now (snapshots w) xs)) xs)]
              else [])"
proof -
  let ?st = "staleIds now (snapshots w) xs"
  let ?q = "queuedItems now (snapshots w) xs"
  let ?w1 = "(if length ?st > 0
              then removeSnapshots ?st (setActive (filter (\<lambda>id. id \<notin> set ?st) xs) w)
              else w)"
  let ?w1' = "?w1\<lparr>showCrawlingTab := True\<rparr>"
  have p1: "parseActive (activeCrawls ?w1') = Some (filter (\<lambda>id. id \<notin> set ?st) xs)"
  proof (cases "?st = []")
    case True
    then show ?thesis using assms by simp
  next
    case False
    then show ?thesis by (simp add: setActive_def)
  qed
  have s1: "snapshots ?w1' p = (if p \<in> set ?st then None else snapshots w p)" for p
    by (simp add: setActive_def)
  have i1: "progressItems ?w1' = progressItems w"
    by (simp add: setActive_def)
  have a1: "activeWrites ?w1' = activeWrites w
      @ (if ?st \<noteq> [] then [filter (\<lambda>id. id \<notin> set ?st) xs] else [])"
    by (simp add: setActive_def)
  have none_queued: "reconcileOnStartup now fetch w = Returned ?w1" if "xs \<noteq> []" "?q = []"
    using that assms by (simp add: reconcileOnStartup_def classifyLoop_closed)
  have some_queued: "reconcileOnStartup now fetch w = verifyAndRestoreProgressItems fetch ?q ?w1'"
    if "xs \<noteq> []" "?q \<noteq> []"
    using that assms by (simp add: reconcileOnStartup_def classifyLoop_closed)
  consider "xs = []" | "xs \<noteq> []" "?q = []" | "xs \<noteq> []" "?q \<noteq> []" by blast
  then have all: "returns (reconcileOnStartup now fetch w) \<and>
    parseActive (activeCrawls (stateOf (reconcileOnStartup now fetch w)))
         = Some (filter (\<lambda>id. id \<notin> set (goneIds fetch ?q)) (filter (\<lambda>id. id \<notin> set ?st) xs)) \<and>
    snapshots (stateOf (reconcileOnStartup now fetch w)) pid
         = (if pid \<in> set ?st \<or> pid \<in> set (goneIds fetch ?q) then None else snapshots w pid) \<and>
    progressItems (stateOf (reconcileOnStartup now fetch w))
         = (if confirmedItems fetch ?q \<noteq> []
            then setProgressItems (Items (confirmedItems fetch ?q)) [] else progressItems w) \<and>
    activeWrites (stateOf (reconcileOnStartup now fetch w))
         = activeWrites w
           @ (if ?st \<noteq> [] then [filter (\<lambda>id. id \<notin> set ?st) xs] else [])
           @ (if goneIds fetch ?q \<noteq> []
              then [filter (\<lambda>id. id \<notin> set (goneIds fetch ?q)) (filter (\<lambda>id. id \<notin> set ?st) xs)]
              else [])"
  proof cases
    case 1
    then show ?thesis using assms
      by (simp add: reconcileOnStartup_def staleIds_def queuedItems_nil goneIds_def
          confirmedItems_def)
  next
    case 2
    show ?thesis using assms p1 s1 [of pid] i1 a1
      by (simp add: none_queued [OF 2] 2(2) goneIds_def confirmedItems_def split: if_splits)
  next
    case 3
    note v = verify_result [OF p1, of fetch ?q]
    show ?thesis
      unfolding some_queued [OF 3]
      using v(1) v(2) v(3) [of pid] v(4) v(5) s1 [of pid] i1 a1
      by (simp split: if_splits)
  qed
  from all show "returns (reconcileOnStartup now fetch w)" by simp
  from all show "parseActive (activeCrawls (stateOf (reconcileOnStartup now fetch w)))
         = Some (filter (\<lambda>id. id \<notin> set (goneIds fetch ?q)) (filter (\<lambda>id. id \<notin> set ?st) xs))"
    by simp
  from all show "snapshots (stateOf (reconcileOnStartup now fetch w)) pid
         = (if pid \<in> set ?st \<or> pid \<in> set (goneIds fetch ?q) then None else snapshots w pid)"
    by simp
  from all show "progressItems (stateOf (reconcileOnStartup now fetch w))
         = (if confirmedItems fetch ?q \<noteq> []
            then setProgressItems (Items (confirmedItems fetch ?q)) [] else progressItems w)"
    by simp
  from all show "activeWrites (stateOf (reconcileOnStartup now fetch w))
         = activeWrites w
           @ (if ?st \<noteq> [] then [filter (\<lambda>id. id \<notin> set ?st) xs] else [])
           @ (if goneIds fetch ?q \<noteq> []
              then [filter (\<lambda>id. id \<notin> set (goneIds fetch ?q)) (filter (\<lambda>id. id \<notin> set ?st) xs)]
              else [])"
    by simp
qed

subsection \<open>The classification in the words of the specification\<close>

lemma isCompleted_iff: "isCompleted snap \<longleftrightarrow> terminal (status snap) \<or> status snap = Some ''error''"
  by (auto simp: isCompleted_def terminal_def split: option.splits)

lemma minutes_iff: "(real_of_int d / (1000 * 60) > 5) = (d > 300000)"
proof -
  have "(real_of_int d / (1000 * 60) > 5) = (real_of_int d > 300000)"
    by (simp add: field_simps)
  also have "\<dots> = (d > 300000)" by linarith
  finally show ?thesis .
qed

lemma isStale_iff: "isStale now snap \<longleftrightarrow> age now snap > fiveMinutes"
proof -
  let ?s = "case startedAt snap of None \<Rightarrow> now | Some t \<Rightarrow> if t = 0 then now else t"
  have "isStale now snap = (now - ?s > 300000)"
    unfolding isStale_def ageMinutes_def Let_def by (rule minutes_iff)
  also have "now - ?s = age now snap"
    by (simp add: age_def split: option.splits)
  finally show ?thesis by (simp add: fiveMinutes_def)
qed

lemma queued_None_iff: "queued now snaps pid = None \<longleftrightarrow> markedStale now (snaps pid)"
  by (simp add: queued_def markedStale_def isCompleted_iff isStale_iff
      split: option.splits stored.splits)

lemma queued_Some:
  "queued now snaps pid = Some x \<Longrightarrow>
   \<exists>parsed. snaps pid = Some (Json parsed) \<and> x = parsed\<lparr>progressId := pid, needsVerification := True\<rparr>"
  by (auto simp: queued_def split: option.splits stored.splits if_splits)

lemma staleIds_marked: "staleIds now snaps xs = filter (\<lambda>pid. markedStale now (snaps pid)) xs"
  by (simp add: staleIds_def queued_None_iff)

lemma queuedItems_marked:
  "map progressId (queuedItems now snaps xs) = filter (\<lambda>pid. \<not> markedStale now (snaps pid)) xs"
  by (simp add: queuedItems_ids queued_None_iff)

lemma queuedItems_mem:
  "x \<in> set (queuedItems now snaps xs) \<longleftrightarrow> (\<exists>pid \<in> set xs. queued now snaps pid = Some x)"
  by (force simp: queuedItems_def map_filter_def)

lemma queuedItems_shape:
  assumes "x \<in> set (queuedItems now snaps xs)"
  shows "progressId x \<in> set xs \<and> needsVerification x \<and> \<not> markedStale now (snaps (progressId x)) \<and>
         (\<exists>parsed. snaps (progressId x) = Some (Json parsed) \<and>
                   x = parsed\<lparr>progressId := progressId x, needsVerification := True\<rparr>)"
proof -
  from assms obtain pid where pid: "pid \<in> set xs" "queued now snaps pid = Some x"
    by (auto simp: queuedItems_mem)
  from queued_Some [OF pid(2)] obtain parsed
    where p: "snaps pid = Some (Json parsed)" "x = parsed\<lparr>progressId := pid, needsVerification := True\<rparr>"
    by blast
  have id: "progressId x = pid" by (simp add: p(2))
  have "\<not> markedStale now (snaps pid)" using pid(2) queued_None_iff [of now snaps pid] by simp
  with pid(1) p id show ?thesis by auto
qed


lemma confirmed_not_gone: "confirmed r \<Longrightarrow> \<not> gone r"
  by (cases r) (simp_all add: confirmed_def gone_def)

lemma tracked_after_reconcile:
  assumes "parseActive (activeCrawls w) = Some xs" and "progressItems w = []"
    and "x \<in> set (progressItems (stateOf (reconcileOnStartup now fetch w)))"
  shows "x \<in> set (queuedItems now (snapshots w) xs) \<and> confirmed (fetch (progressId x))"
proof -
  let ?c = "confirmedItems fetch (queuedItems now (snapshots w) xs)"
  have ne: "?c \<noteq> []"
    using assms(2,3) reconcile_result(4) [OF assms(1), of now fetch] by (auto split: if_splits)
  then have "progressItems (stateOf (reconcileOnStartup now fetch w)) = setProgressItems (Items ?c) []"
    using reconcile_result(4) [OF assms(1), of now fetch] by simp
  then have "x \<in> set ?c" using assms(3) setProgressItems_subset [of ?c "[]"] by auto
  then show ?thesis by (simp add: confirmedItems_def)
qed

lemma threeJobs_marks:
  "markedStale 1000000 (snapshots threeJobs ''a'')"
  "markedStale 1000000 (snapshots threeJobs ''b'')"
  "\<not> markedStale 1000000 (snapshots threeJobs ''c'')"
  by (simp_all add: threeJobs_def pageOnMount_def markedStale_def terminal_def age_def
      fiveMinutes_def job_def)

lemma threeJobs_fields:
  "parseActive (activeCrawls threeJobs) = Some [''a'', ''b'', ''c'']"
  "activeCrawls threeJobs = Some (Json [''a'', ''b'', ''c''])"
  "progressItems threeJobs = []"
  "activeWrites threeJobs = []"
  "toasts threeJobs = []"
  "snapshots threeJobs ''a'' = Some (Json ((job ''a'' ''completed'')\<lparr>startedAt := Some 900000\<rparr>))"
  "snapshots threeJobs ''b'' = Some (Json ((job ''b'' ''crawling'')\<lparr>startedAt := Some 1000\<rparr>))"
  "snapshots threeJobs ''c'' = Some (Json ((job ''c'' ''crawling'')\<lparr>startedAt := Some 900000\<rparr>))"
  by (simp_all add: threeJobs_def pageOnMount_def)

lemma queued_unmarked:
  assumes "snaps pid = Some (Json parsed)" and "\<not> markedStale now (snaps pid)"
  shows "queued now snaps pid = Some (parsed\<lparr>progressId := pid, needsVerification := True\<rparr>)"
  using assms queued_None_iff [of now snaps pid]
  by (auto simp: queued_def split: if_splits)

lemma threeJobs_loops:
  "queuedItems 1000000 (snapshots threeJobs) [''a'', ''b'', ''c'']
     = [(job ''c'' ''crawling'')\<lparr>startedAt := Some 900000, needsVerification := True\<rparr>]"
  "staleIds 1000000 (snapshots threeJobs) [''a'', ''b'', ''c''] = [''a'', ''b'']"
proof -
  have "queued 1000000 (snapshots threeJobs) ''c''
     = Some (((job ''c'' ''crawling'')\<lparr>startedAt := Some 900000\<rparr>)
              \<lparr>progressId := ''c'', needsVerification := True\<rparr>)"
    by (rule queued_unmarked [where snaps = "snapshots threeJobs" and pid = "''c''",
          OF threeJobs_fields(8) threeJobs_marks(3)])
  then show "queuedItems 1000000 (snapshots threeJobs) [''a'', ''b'', ''c'']
     = [(job ''c'' ''crawling'')\<lparr>startedAt := Some 900000, needsVerification := True\<rparr>]"
    using threeJobs_marks
    by (simp add: queuedItems_def map_filter_def queued_None_iff job_def)
  show "staleIds 1000000 (snapshots threeJobs) [''a'', ''b'', ''c''] = [''a'', ''b'']"
    using threeJobs_marks by (simp add: staleIds_marked)
qed

lemma reconcile_toasts: "toasts (stateOf (reconcileOnStartup now fetch w)) = toasts w"
proof -
  have v: "toasts (stateOf (verifyAndRestoreProgressItems fetch items u)) = toasts u" for items u
    by (simp add: verifyAndRestoreProgressItems_def verifyLoop_closed setActive_def
        split: option.splits)
  show ?thesis
    by (simp add: reconcileOnStartup_def classifyLoop_closed Let_def v setActive_def
        split: option.splits)
qed

section \<open>The claims\<close>

subsection \<open>C4: one item for each job id\<close>

text \<open>
  C4. Whatever is written through \<^verbatim>\<open>setProgressItems\<close>, the list it stores
  has pairwise distinct job ids; so the tracked list keeps distinct ids along
  every sequence of events. Appending an item whose id is already tracked
  replaces the stored item and leaves the length as it was; appending an item
  with a new id makes the list one longer.
\<close>

theorem tracked_ids_unique:
  "distinct (map progressId (setProgressItems u prev)) \<and>
   (distinct (trackedIds w) \<longrightarrow> distinct (trackedIds (run events w))) \<and>
   (distinct (map progressId prev) \<longrightarrow>
      x \<in> set (setProgressItems (Updater (\<lambda>prev. prev @ [x])) prev) \<and>
      length (setProgressItems (Updater (\<lambda>prev. prev @ [x])) prev) =
        (if progressId x \<in> progressId ` set prev then length prev else Suc (length prev)))"
proof (intro conjI impI)
  show "distinct (map progressId (setProgressItems u prev))"
    by (rule setProgressItems_distinct)
next
  assume "distinct (trackedIds w)"
  then show "distinct (trackedIds (run events w))"
    by (rule run_distinct)
next
  assume d: "distinct (map progressId prev)"
  show "x \<in> set (setProgressItems (Updater (\<lambda>prev. prev @ [x])) prev)"
    by (auto simp: setProgressItems_append [OF d])
  show "length (setProgressItems (Updater (\<lambda>prev. prev @ [x])) prev) =
        (if progressId x \<in> progressId ` set prev then length prev else Suc (length prev))"
    by (simp add: setProgressItems_append [OF d])
qed

theorem tracked_ids_unique_witness:
  "distinct (map progressId
     (setProgressItems (Items [job ''a'' ''starting'', job ''b'' ''starting'', job ''a'' ''crawling'']) [])) \<and>
   distinct (trackedIds (pageOnMount None Map.empty)) \<and>
   distinct (trackedIds
     (run [StartCrawl ''a'' (job [] []) 0, StartCrawl ''a'' (job [] []) 1]
        (pageOnMount None Map.empty))) \<and>
   distinct (map progressId [job ''a'' ''starting'', job ''b'' ''starting'']) \<and>
   setProgressItems (Updater (\<lambda>prev. prev @ [job ''a'' ''crawling'']))
     [job ''a'' ''starting'', job ''b'' ''starting''] = [job ''a'' ''crawling'', job ''b'' ''starting''] \<and>
   length (setProgressItems (Updater (\<lambda>prev. prev @ [job ''a'' ''crawling'']))
     [job ''a'' ''starting'', job ''b'' ''starting'']) = 2"
  using tracked_ids_unique [of "Items [job ''a'' ''starting'', job ''b'' ''starting'', job ''a'' ''crawling'']"
      "[job ''a'' ''starting'', job ''b'' ''starting'']" "pageOnMount None Map.empty"
      "[StartCrawl ''a'' (job [] []) 0, StartCrawl ''a'' (job [] []) 1]" "job ''a'' ''crawling''"]
  by (simp add: pageOnMount_def job_def setProgressItems_def newMap_def)

subsection \<open>C5: no guard on timestamps\<close>

text \<open>
  C5 says that an update older than the stored item is dropped. The setter
  compares no timestamps. Here a finished job, last updated at time 10, is
  overwritten by an older observation, made at time 5, that calls it running.
\<close>

theorem stale_update_replaces_counterexample:
  "lastUpdated ((job ''j'' ''completed'')\<lparr>lastUpdated := Some 10\<rparr>) = Some 10 \<and>
   lastUpdated ((job ''j'' ''crawling'')\<lparr>lastUpdated := Some 5\<rparr>) = Some 5 \<and>
   setProgressItems (Updater (\<lambda>prev. prev @ [(job ''j'' ''crawling'')\<lparr>lastUpdated := Some 5\<rparr>]))
     [(job ''j'' ''completed'')\<lparr>lastUpdated := Some 10\<rparr>]
   = [(job ''j'' ''crawling'')\<lparr>lastUpdated := Some 5\<rparr>] \<and>
   [(job ''j'' ''crawling'')\<lparr>lastUpdated := Some 5\<rparr>] \<noteq> [(job ''j'' ''completed'')\<lparr>lastUpdated := Some 10\<rparr>]"
  by (simp add: job_def setProgressItems_def newMap_def)

text \<open>
  C5, as the code has it: when an item is written for a job id that is already
  tracked, the written item takes the place of the stored one, whatever the
  two values of \<open>lastUpdated\<close> are; the last write wins.
\<close>

theorem last_write_wins:
  assumes "distinct (map progressId prev)" and "old \<in> set prev"
    and "progressId x = progressId old"
  shows "setProgressItems (Updater (\<lambda>prev. prev @ [x])) prev =
           map (\<lambda>y. if progressId y = progressId old then x else y) prev \<and>
         x \<in> set (setProgressItems (Updater (\<lambda>prev. prev @ [x])) prev) \<and>
         (old = x \<or> old \<notin> set (setProgressItems (Updater (\<lambda>prev. prev @ [x])) prev))"
proof -
  have mem: "progressId x \<in> progressId ` set prev" using assms(2,3) by force
  have eq: "setProgressItems (Updater (\<lambda>prev. prev @ [x])) prev =
           map (\<lambda>y. if progressId y = progressId old then x else y) prev"
    using setProgressItems_append [OF assms(1), of x] mem assms(3) by simp
  show ?thesis using assms(2) by (auto simp: eq)
qed

theorem last_write_wins_witness:
  "setProgressItems (Updater (\<lambda>prev. prev @ [(job ''j'' ''crawling'')\<lparr>lastUpdated := Some 5\<rparr>]))
     [job ''i'' ''starting'', (job ''j'' ''completed'')\<lparr>lastUpdated := Some 10\<rparr>]
   = [job ''i'' ''starting'', (job ''j'' ''crawling'')\<lparr>lastUpdated := Some 5\<rparr>]"
  using last_write_wins [of "[job ''i'' ''starting'', (job ''j'' ''completed'')\<lparr>lastUpdated := Some 10\<rparr>]"
      "(job ''j'' ''completed'')\<lparr>lastUpdated := Some 10\<rparr>" "(job ''j'' ''crawling'')\<lparr>lastUpdated := Some 5\<rparr>"]
  by (simp add: job_def)

subsection \<open>C1: completion and the refresh of the list\<close>

text \<open>
  C1 says that two completions in a row refresh the list once. The handler
  calls \<^verbatim>\<open>loadKnowledgeItems\<close> each time it runs: from a page that tracks
  one job, two calls for that job leave two refreshes behind.
\<close>

theorem completion_twice_refreshes_twice_counterexample:
  "refreshes (trackingPage [job ''j'' ''crawling'']) = 0 \<and>
   refreshes (stateOf (handleProgressComplete (job ''j'' ''completed'')
     (stateOf (handleProgressComplete (job ''j'' ''completed'') (trackingPage [job ''j'' ''crawling'']))))) = 2"
  by (simp add: trackingPage_def pageOnMount_def handleProgressComplete_def Let_def removeSnapshot_def
        setActive_def showToast_def loadKnowledgeItems_def parseActive_def job_def)

text \<open>
  C1, as the code has it: where the persisted list of active ids can be read,
  every call of the completion handler returns and refreshes the list once, so
  two calls in a row refresh it twice; after them the tracked list has no item
  for the job, and the store has neither a snapshot nor an entry in the list
  of active ids for it.
\<close>

theorem completion_refreshes_each_time:
  assumes "parseActive (activeCrawls w) \<noteq> None"
  shows "returns (handleProgressComplete d w) \<and>
         returns (handleProgressComplete d (stateOf (handleProgressComplete d w))) \<and>
         refreshes (stateOf (handleProgressComplete d w)) = refreshes w + 1 \<and>
         refreshes (stateOf (handleProgressComplete d (stateOf (handleProgressComplete d w)))) = refreshes w + 2 \<and>
         progressId d \<notin> set (trackedIds (stateOf (handleProgressComplete d (stateOf (handleProgressComplete d w))))) \<and>
         snapshots (stateOf (handleProgressComplete d (stateOf (handleProgressComplete d w)))) (progressId d) = None \<and>
         (\<exists>xs. activeCrawls (stateOf (handleProgressComplete d (stateOf (handleProgressComplete d w)))) = Some (Json xs)
               \<and> progressId d \<notin> set xs)"
proof -
  from assms obtain xs where xs: "parseActive (activeCrawls w) = Some xs" by auto
  let ?w1 = "stateOf (handleProgressComplete d w)"
  let ?xs1 = "filter (\<lambda>id. id \<noteq> progressId d) xs"
  have a1: "activeCrawls ?w1 = Some (Json ?xs1)" by (rule complete_once(5) [OF xs])
  then have xs1: "parseActive (activeCrawls ?w1) = Some ?xs1" by (simp add: parseActive_def)
  let ?w2 = "stateOf (handleProgressComplete d ?w1)"
  have r1: "returns (handleProgressComplete d w)"
    using complete_once(1) [OF xs, of d] by (metis returns.simps(1))
  have r2: "returns (handleProgressComplete d ?w1)"
    using complete_once(1) [OF xs1, of d] by (metis returns.simps(1))
  have "activeCrawls ?w2 = Some (Json (filter (\<lambda>id. id \<noteq> progressId d) ?xs1))"
    by (rule complete_once(5) [OF xs1])
  moreover have "progressId d \<notin> set (filter (\<lambda>id. id \<noteq> progressId d) ?xs1)" by simp
  ultimately have act: "\<exists>ys. activeCrawls ?w2 = Some (Json ys) \<and> progressId d \<notin> set ys" by blast
  show ?thesis
    using r1 r2 act complete_once(2) [OF xs, of d] complete_once(2) [OF xs1, of d]
      complete_once(3) [OF xs1, of d] complete_once(4) [OF xs1, of d]
    by simp
qed

theorem completion_refreshes_each_time_witness:
  "refreshes (stateOf (handleProgressComplete (job ''j'' ''completed'') (trackingPage [job ''j'' ''crawling'']))) = 1 \<and>
   refreshes (stateOf (handleProgressComplete (job ''j'' ''completed'')
     (stateOf (handleProgressComplete (job ''j'' ''completed'') (trackingPage [job ''j'' ''crawling'']))))) = 2 \<and>
   ''j'' \<notin> set (trackedIds (stateOf (handleProgressComplete (job ''j'' ''completed'')
     (stateOf (handleProgressComplete (job ''j'' ''completed'') (trackingPage [job ''j'' ''crawling''])))))) \<and>
   snapshots (stateOf (handleProgressComplete (job ''j'' ''completed'')
     (stateOf (handleProgressComplete (job ''j'' ''completed'') (trackingPage [job ''j'' ''crawling''])))))
     ''j'' = None"
proof -
  have h: "parseActive (activeCrawls (trackingPage [job ''j'' ''crawling''])) \<noteq> None"
    by (simp add: trackingPage_def pageOnMount_def parseActive_def)
  have r: "refreshes (trackingPage [job ''j'' ''crawling'']) = 0"
    by (simp add: trackingPage_def pageOnMount_def)
  have p: "progressId (job ''j'' ''completed'') = ''j''" by (simp add: job_def)
  show ?thesis
    using completion_refreshes_each_time [OF h, of "job ''j'' ''completed''"] r p by simp
qed

subsection \<open>C9: an error without a job id\<close>

text \<open>
  C9. The error handler called with a message and no job id returns and adds
  one toast; the tracked list, every snapshot, the persisted list of active
  ids, the log of its writes and the pending timeouts are as before.
\<close>

theorem error_without_id_only_toasts:
  "handleProgressError rendered err None w =
     Returned (w\<lparr>toasts := toasts w @ [(''Crawling failed: '' @ err, ''error'')]\<rparr>) \<and>
   progressItems (stateOf (handleProgressError rendered err None w)) = progressItems w \<and>
   snapshots (stateOf (handleProgressError rendered err None w)) = snapshots w \<and>
   activeCrawls (stateOf (handleProgressError rendered err None w)) = activeCrawls w \<and>
   activeWrites (stateOf (handleProgressError rendered err None w)) = activeWrites w \<and>
   timers (stateOf (handleProgressError rendered err None w)) = timers w"
  by (simp add: handleProgressError_def truthy_def showToast_def)

theorem error_without_id_only_toasts_witness:
  "stateOf (handleProgressError [job ''j'' ''crawling''] ''boom'' None (trackingPage [job ''j'' ''crawling'']))
   = (trackingPage [job ''j'' ''crawling''])\<lparr>toasts := [(''Crawling failed: boom'', ''error'')]\<rparr>"
  using error_without_id_only_toasts [of "[job ''j'' ''crawling'']" "''boom''" "trackingPage [job ''j'' ''crawling'']"]
  by (simp add: trackingPage_def pageOnMount_def)

subsection \<open>C6: a failure is shown, then removed\<close>

text \<open>
  C6 says that every tracked job that fails is shown as failed and is gone
  five seconds later, with no further effect. Three runs of the handler say
  otherwise. A tracked job whose id is the empty string is taken for no id:
  its item stays as it was and no timeout is registered. When job \<open>j\<close>
  fails while it is the only one tracked, and job \<open>k\<close> is started before the
  timeout runs, the timeout also hides the crawling tab, which was shown,
  although \<open>k\<close> is still tracked. And when the persisted list of active ids
  does not parse, the handler is left by an exception before it registers
  the timeout, so that the failed item is still tracked after five seconds.
\<close>

theorem failure_not_always_removed_counterexample:
  "progressItems (stateOf (handleProgressError [job [] ''crawling''] ''boom'' (Some [])
      (trackingPage [job [] ''crawling''])))
     = [job [] ''crawling''] \<and>
   timers (stateOf (handleProgressError [job [] ''crawling''] ''boom'' (Some [])
      (trackingPage [job [] ''crawling'']))) = [] \<and>
   showCrawlingTab (stateOf (handleStartCrawl ''k'' (job [] []) 1
      (stateOf (handleProgressError [job ''j'' ''crawling''] ''boom'' (Some ''j'')
         (trackingPage [job ''j'' ''crawling''])))))
     = True \<and>
   trackedIds (elapse 5000 (stateOf (handleStartCrawl ''k'' (job [] []) 1
      (stateOf (handleProgressError [job ''j'' ''crawling''] ''boom'' (Some ''j'')
         (trackingPage [job ''j'' ''crawling''])))))) = [''k''] \<and>
   showCrawlingTab (elapse 5000 (stateOf (handleStartCrawl ''k'' (job [] []) 1
      (stateOf (handleProgressError [job ''j'' ''crawling''] ''boom'' (Some ''j'')
         (trackingPage [job ''j'' ''crawling''])))))) = False \<and>
   returns (handleProgressError [job ''j'' ''crawling''] ''boom'' (Some ''j'')
      ((trackingPage [job ''j'' ''crawling''])\<lparr>activeCrawls := Some Malformed\<rparr>)) = False \<and>
   timers (stateOf (handleProgressError [job ''j'' ''crawling''] ''boom'' (Some ''j'')
      ((trackingPage [job ''j'' ''crawling''])\<lparr>activeCrawls := Some Malformed\<rparr>))) = [] \<and>
   trackedIds (elapse 5000 (stateOf (handleProgressError [job ''j'' ''crawling''] ''boom'' (Some ''j'')
      ((trackingPage [job ''j'' ''crawling''])\<lparr>activeCrawls := Some Malformed\<rparr>)))) = [''j'']"
proof -
  have a: "stateOf (handleProgressError [job [] ''crawling''] ''boom'' (Some [])
      (trackingPage [job [] ''crawling'']))
     = (trackingPage [job [] ''crawling''])\<lparr>toasts := [(''Crawling failed: boom'', ''error'')]\<rparr>"
    by (simp add: handleProgressError_def truthy_def showToast_def trackingPage_def pageOnMount_def)
  have b: "stateOf (handleProgressError [job ''j'' ''crawling''] ''boom'' (Some ''j'')
         (trackingPage [job ''j'' ''crawling'']))
     = (trackingPage [job ''j'' ''crawling''])
        \<lparr>progressItems := [(job ''j'' ''failed'')\<lparr>error := Some ''boom''\<rparr>],
         snapshots := Map.empty, activeCrawls := Some (Json []), activeWrites := [[]],
         timers := [(5000, RemoveFailed ''j'' [job ''j'' ''crawling''])],
         toasts := [(''Crawling failed: boom'', ''error'')]\<rparr>"
    by (simp add: handleProgressError_def truthy_def Let_def removeSnapshot_def setActive_def
      setTimeout_def showToast_def trackingPage_def pageOnMount_def parseActive_def job_def
      setProgressItems_def newMap_def)
  have c: "stateOf (handleProgressError [job ''j'' ''crawling''] ''boom'' (Some ''j'')
      ((trackingPage [job ''j'' ''crawling''])\<lparr>activeCrawls := Some Malformed\<rparr>))
     = (trackingPage [job ''j'' ''crawling''])
        \<lparr>activeCrawls := Some Malformed,
         progressItems := [(job ''j'' ''failed'')\<lparr>error := Some ''boom''\<rparr>],
         snapshots := Map.empty\<rparr>"
    and c': "returns (handleProgressError [job ''j'' ''crawling''] ''boom'' (Some ''j'')
      ((trackingPage [job ''j'' ''crawling''])\<lparr>activeCrawls := Some Malformed\<rparr>)) = False"
    by (simp_all add: handleProgressError_def truthy_def Let_def removeSnapshot_def
      trackingPage_def pageOnMount_def parseActive_def job_def setProgressItems_def newMap_def)
  show ?thesis
    unfolding a b c c'
    by (simp add: handleStartCrawl_def Let_def setActive_def parseActive_def elapse_def
        trackingPage_def pageOnMount_def job_def setProgressItems_def newMap_def)
qed

text \<open>
  C6, as the code has it. Let a job be tracked, its id not the empty string,
  and let the persisted list of active ids be readable. The error handler
  then returns in the state given below: every item of that id has status
  \<^verbatim>\<open>failed\<close> and the given message as its error, the other items are as
  they were (and in their places, where the tracked ids were distinct), the
  snapshot of the job is deleted, its id is filtered out of the persisted
  list, one toast is added and one timeout of 5000 milliseconds is
  registered. Once 5000 milliseconds or more have passed, the job is no longer
  tracked. Of the tracked items exactly those are removed whose id is the
  failed one or belongs to another failure timeout that was due; the crawling
  tab is hidden if the list that a due callback closes over has one item, and
  is as before otherwise; the timeouts that were due are gone; and the store,
  the count of refreshes, the toasts and the calls of the job-control API are
  as the handler left them.
\<close>

theorem failure_shown_then_removed:
  assumes "pid \<in> set (trackedIds w)" and "pid \<noteq> []"
    and "parseActive (activeCrawls w) = Some xs"
  shows "handleProgressError rendered err (Some pid) w =
      Returned (w\<lparr>progressItems :=
                    setProgressItems
                      (Items (map (\<lambda>item. if progressId item = pid
                                            then item\<lparr>status := Some ''failed'', error := Some err\<rparr>
                                            else item) (progressItems w)))
                      (progressItems w),
                 snapshots := (snapshots w)(pid := None),
                 activeCrawls := Some (Json (filter (\<lambda>id. id \<noteq> pid) xs)),
                 activeWrites := activeWrites w @ [filter (\<lambda>id. id \<noteq> pid) xs],
                 timers := timers w @ [(5000, RemoveFailed pid rendered)],
                 toasts := toasts w @ [(''Crawling failed: '' @ err, ''error'')]\<rparr>) \<and>
    returns (handleProgressError rendered err (Some pid) w) \<and>
    pid \<in> set (trackedIds (stateOf (handleProgressError rendered err (Some pid) w))) \<and>
    (\<forall>item \<in> set (progressItems (stateOf (handleProgressError rendered err (Some pid) w))).
        progressId item = pid \<longrightarrow> status item = Some ''failed'' \<and> error item = Some err) \<and>
    (distinct (trackedIds w) \<longrightarrow>
       progressItems (stateOf (handleProgressError rendered err (Some pid) w))
         = map (\<lambda>item. if progressId item = pid
                        then item\<lparr>status := Some ''failed'', error := Some err\<rparr>
                        else item) (progressItems w)) \<and>
    snapshots (stateOf (handleProgressError rendered err (Some pid) w)) pid = None \<and>
    (\<exists>ys. activeCrawls (stateOf (handleProgressError rendered err (Some pid) w)) = Some (Json ys)
          \<and> pid \<notin> set ys) \<and>
    (\<forall>ms \<ge> 5000.
       pid \<notin> set (trackedIds (elapse ms (stateOf (handleProgressError rendered err (Some pid) w)))) \<and>
       progressItems (elapse ms (stateOf (handleProgressError rendered err (Some pid) w)))
         = filter (\<lambda>item. progressId item \<noteq> pid \<and>
                           progressId item \<notin> callbackId ` set (dueCallbacks ms w))
             (progressItems (stateOf (handleProgressError rendered err (Some pid) w))) \<and>
       showCrawlingTab (elapse ms (stateOf (handleProgressError rendered err (Some pid) w)))
         = (if length rendered = 1 \<or> (\<exists>c \<in> set (dueCallbacks ms w). length (callbackItems c) = 1)
            then False else showCrawlingTab w) \<and>
       timers (elapse ms (stateOf (handleProgressError rendered err (Some pid) w)))
         = map (\<lambda>t. (fst t - ms, snd t)) (filter (\<lambda>t. \<not> fst t \<le> ms) (timers w)) \<and>
       snapshots (elapse ms (stateOf (handleProgressError rendered err (Some pid) w)))
         = snapshots (stateOf (handleProgressError rendered err (Some pid) w)) \<and>
       activeCrawls (elapse ms (stateOf (handleProgressError rendered err (Some pid) w)))
         = activeCrawls (stateOf (handleProgressError rendered err (Some pid) w)) \<and>
       activeWrites (elapse ms (stateOf (handleProgressError rendered err (Some pid) w)))
         = activeWrites (stateOf (handleProgressError rendered err (Some pid) w)) \<and>
       refreshes (elapse ms (stateOf (handleProgressError rendered err (Some pid) w)))
         = refreshes (stateOf (handleProgressError rendered err (Some pid) w)) \<and>
       toasts (elapse ms (stateOf (handleProgressError rendered err (Some pid) w)))
         = toasts (stateOf (handleProgressError rendered err (Some pid) w)) \<and>
       stopCalls (elapse ms (stateOf (handleProgressError rendered err (Some pid) w)))
         = stopCalls (stateOf (handleProgressError rendered err (Some pid) w)))"
proof -
  let ?f = "\<lambda>item. if progressId item = pid
                    then item\<lparr>status := Some ''failed'', error := Some err\<rparr> else item"
  let ?w1 = "stateOf (handleProgressError rendered err (Some pid) w)"
  note eq = error_with_id [OF assms(2) assms(3), of rendered err]
  have items: "progressItems ?w1 = setProgressItems (Items (map ?f (progressItems w))) (progressItems w)"
    by (simp add: eq)
  have "progressId ` set (progressItems ?w1) = progressId ` set (map ?f (progressItems w))"
    by (simp only: items setProgressItems_ids)
  also have "\<dots> = progressId ` set (progressItems w)"
    by (rule map_status_ids) simp
  finally have present: "pid \<in> set (trackedIds ?w1)" using assms(1) by simp
  have "set (progressItems ?w1) \<subseteq> set (map ?f (progressItems w))"
    by (simp only: items setProgressItems_subset)
  then have failed: "\<forall>item \<in> set (progressItems ?w1).
        progressId item = pid \<longrightarrow> status item = Some ''failed'' \<and> error item = Some err"
    using marked_items [where pid = pid and st = "''failed''" and e = "Some err"
        and xs = "progressItems w"] by blast
  have inplace: "distinct (trackedIds w) \<longrightarrow> progressItems ?w1 = map ?f (progressItems w)"
  proof
    assume d: "distinct (trackedIds w)"
    have "map progressId (map ?f (progressItems w)) = trackedIds w"
      by (rule map_marked_ids)
    then have "distinct (map progressId (map ?f (progressItems w)))" using d by (simp only:)
    then show "progressItems ?w1 = map ?f (progressItems w)"
      by (simp only: items setProgressItems_id)
  qed
  have "pid \<notin> set (filter (\<lambda>id. id \<noteq> pid) xs)" by simp
  then have act: "\<exists>ys. activeCrawls ?w1 = Some (Json ys) \<and> pid \<notin> set ys"
    by (simp add: eq)
  have ret: "returns (handleProgressError rendered err (Some pid) w)" by (simp add: eq)
  have snap: "snapshots ?w1 pid = None" by (simp add: eq)
  have d1: "distinct (trackedIds ?w1)"
    by (simp only: items setProgressItems_distinct)
  have tm: "timers ?w1 = timers w @ [(5000, RemoveFailed pid rendered)]"
    and tab: "showCrawlingTab ?w1 = showCrawlingTab w"
    by (simp_all add: eq)
  have due: "dueCallbacks ms ?w1 = dueCallbacks ms w @ [RemoveFailed pid rendered]"
    if "ms \<ge> 5000" for ms
    using that by (simp add: dueCallbacks_def tm)
  have after: "pid \<notin> set (trackedIds (elapse ms ?w1)) \<and>
       progressItems (elapse ms ?w1)
         = filter (\<lambda>item. progressId item \<noteq> pid \<and>
                           progressId item \<notin> callbackId ` set (dueCallbacks ms w))
             (progressItems ?w1) \<and>
       showCrawlingTab (elapse ms ?w1)
         = (if length rendered = 1 \<or> (\<exists>c \<in> set (dueCallbacks ms w). length (callbackItems c) = 1)
            then False else showCrawlingTab w) \<and>
       timers (elapse ms ?w1)
         = map (\<lambda>t. (fst t - ms, snd t)) (filter (\<lambda>t. \<not> fst t \<le> ms) (timers w)) \<and>
       snapshots (elapse ms ?w1) = snapshots ?w1 \<and>
       activeCrawls (elapse ms ?w1) = activeCrawls ?w1 \<and>
       activeWrites (elapse ms ?w1) = activeWrites ?w1 \<and>
       refreshes (elapse ms ?w1) = refreshes ?w1 \<and>
       toasts (elapse ms ?w1) = toasts ?w1 \<and>
       stopCalls (elapse ms ?w1) = stopCalls ?w1" if ms: "ms \<ge> 5000" for ms
  proof -
    note ex = elapse_exact [OF d1, of ms]
    have p: "progressItems (elapse ms ?w1)
         = filter (\<lambda>item. progressId item \<noteq> pid \<and>
                           progressId item \<notin> callbackId ` set (dueCallbacks ms w))
             (progressItems ?w1)"
      by (subst ex) (auto simp: due [OF ms] intro: filter_cong)
    have gone: "pid \<notin> set (trackedIds (elapse ms ?w1))"
      by (auto simp: p)
    have t: "showCrawlingTab (elapse ms ?w1)
         = (if length rendered = 1 \<or> (\<exists>c \<in> set (dueCallbacks ms w). length (callbackItems c) = 1)
            then False else showCrawlingTab w)"
      by (subst ex) (auto simp: due [OF ms] tab)
    have r: "timers (elapse ms ?w1)
         = map (\<lambda>t. (fst t - ms, snd t)) (filter (\<lambda>t. \<not> fst t \<le> ms) (timers w))"
      using ms by (subst ex) (simp add: tm)
    from gone p t r elapse_frame [of ms ?w1] show ?thesis by (intro conjI) simp_all
  qed
  then have later: "\<forall>ms \<ge> 5000.
       pid \<notin> set (trackedIds (elapse ms ?w1)) \<and>
       progressItems (elapse ms ?w1)
         = filter (\<lambda>item. progressId item \<noteq> pid \<and>
                           progressId item \<notin> callbackId ` set (dueCallbacks ms w))
             (progressItems ?w1) \<and>
       showCrawlingTab (elapse ms ?w1)
         = (if length rendered = 1 \<or> (\<exists>c \<in> set (dueCallbacks ms w). length (callbackItems c) = 1)
            then False else showCrawlingTab w) \<and>
       timers (elapse ms ?w1)
         = map (\<lambda>t. (fst t - ms, snd t)) (filter (\<lambda>t. \<not> fst t \<le> ms) (timers w)) \<and>
       snapshots (elapse ms ?w1) = snapshots ?w1 \<and>
       activeCrawls (elapse ms ?w1) = activeCrawls ?w1 \<and>
       activeWrites (elapse ms ?w1) = activeWrites ?w1 \<and>
       refreshes (elapse ms ?w1) = refreshes ?w1 \<and>
       toasts (elapse ms ?w1) = toasts ?w1 \<and>
       stopCalls (elapse ms ?w1) = stopCalls ?w1"
    by blast
  from eq ret present failed inplace snap act later show ?thesis
    by (intro conjI)
qed

theorem failure_shown_then_removed_witness:
  "progressItems (stateOf (handleProgressError [job ''j'' ''crawling'', job ''k'' ''crawling''] ''boom''
      (Some ''j'') (trackingPage [job ''j'' ''crawling'', job ''k'' ''crawling''])))
     = [(job ''j'' ''failed'')\<lparr>error := Some ''boom''\<rparr>, job ''k'' ''crawling''] \<and>
   snapshots (stateOf (handleProgressError [job ''j'' ''crawling'', job ''k'' ''crawling''] ''boom''
      (Some ''j'') (trackingPage [job ''j'' ''crawling'', job ''k'' ''crawling'']))) ''j'' = None \<and>
   activeCrawls (stateOf (handleProgressError [job ''j'' ''crawling'', job ''k'' ''crawling''] ''boom''
      (Some ''j'') (trackingPage [job ''j'' ''crawling'', job ''k'' ''crawling''])))
     = Some (Json [''k'']) \<and>
   progressItems (elapse 5000 (stateOf (handleProgressError [job ''j'' ''crawling'', job ''k'' ''crawling'']
      ''boom'' (Some ''j'') (trackingPage [job ''j'' ''crawling'', job ''k'' ''crawling'']))))
     = [job ''k'' ''crawling''] \<and>
   showCrawlingTab (elapse 5000 (stateOf (handleProgressError [job ''j'' ''crawling'', job ''k'' ''crawling'']
      ''boom'' (Some ''j'') (trackingPage [job ''j'' ''crawling'', job ''k'' ''crawling''])))) \<and>
   timers (elapse 5000 (stateOf (handleProgressError [job ''j'' ''crawling'', job ''k'' ''crawling'']
      ''boom'' (Some ''j'') (trackingPage [job ''j'' ''crawling'', job ''k'' ''crawling''])))) = []"
proof -
  let ?xs = "[job ''j'' ''crawling'', job ''k'' ''crawling'']"
  have h1: "''j'' \<in> set (trackedIds (trackingPage ?xs))"
    by (simp add: trackingPage_def job_def)
  have h2: "''j'' \<noteq> []" by simp
  have h3: "parseActive (activeCrawls (trackingPage ?xs)) = Some [''j'', ''k'']"
    by (simp add: trackingPage_def pageOnMount_def parseActive_def job_def)
  have e: "stateOf (handleProgressError ?xs ''boom'' (Some ''j'') (trackingPage ?xs))
     = (trackingPage ?xs)
        \<lparr>progressItems := [(job ''j'' ''failed'')\<lparr>error := Some ''boom''\<rparr>, job ''k'' ''crawling''],
         snapshots := (snapshots (trackingPage ?xs))(''j'' := None),
         activeCrawls := Some (Json [''k'']), activeWrites := [[''k'']],
         timers := [(5000, RemoveFailed ''j'' ?xs)],
         toasts := [(''Crawling failed: boom'', ''error'')]\<rparr>"
    by (simp add: handleProgressError_def truthy_def Let_def removeSnapshot_def setActive_def
      setTimeout_def showToast_def trackingPage_def pageOnMount_def parseActive_def job_def
      setProgressItems_def newMap_def)
  have f: "showCrawlingTab (trackingPage ?xs)" "timers (trackingPage ?xs) = []"
    "dueCallbacks 5000 (trackingPage ?xs) = []"
    by (simp_all add: trackingPage_def pageOnMount_def dueCallbacks_def)
  have th: "\<forall>ms \<ge> 5000.
       progressItems (elapse ms (stateOf (handleProgressError ?xs ''boom'' (Some ''j'') (trackingPage ?xs))))
         = filter (\<lambda>item. progressId item \<noteq> ''j'' \<and>
                           progressId item \<notin> callbackId ` set (dueCallbacks ms (trackingPage ?xs)))
             (progressItems (stateOf (handleProgressError ?xs ''boom'' (Some ''j'') (trackingPage ?xs)))) \<and>
       showCrawlingTab (elapse ms (stateOf (handleProgressError ?xs ''boom'' (Some ''j'') (trackingPage ?xs))))
         = (if length ?xs = 1 \<or> (\<exists>c \<in> set (dueCallbacks ms (trackingPage ?xs)). length (callbackItems c) = 1)
            then False else showCrawlingTab (trackingPage ?xs)) \<and>
       timers (elapse ms (stateOf (handleProgressError ?xs ''boom'' (Some ''j'') (trackingPage ?xs))))
         = map (\<lambda>t. (fst t - ms, snd t)) (filter (\<lambda>t. \<not> fst t \<le> ms) (timers (trackingPage ?xs)))"
    using failure_shown_then_removed [OF h1 h2 h3, of ?xs "''boom''"] by blast
  have th5: "progressItems (elapse 5000 (stateOf (handleProgressError ?xs ''boom'' (Some ''j'') (trackingPage ?xs))))
         = filter (\<lambda>item. progressId item \<noteq> ''j'' \<and>
                           progressId item \<notin> callbackId ` set (dueCallbacks 5000 (trackingPage ?xs)))
             (progressItems (stateOf (handleProgressError ?xs ''boom'' (Some ''j'') (trackingPage ?xs)))) \<and>
       showCrawlingTab (elapse 5000 (stateOf (handleProgressError ?xs ''boom'' (Some ''j'') (trackingPage ?xs))))
         = (if length ?xs = 1 \<or> (\<exists>c \<in> set (dueCallbacks 5000 (trackingPage ?xs)). length (callbackItems c) = 1)
            then False else showCrawlingTab (trackingPage ?xs)) \<and>
       timers (elapse 5000 (stateOf (handleProgressError ?xs ''boom'' (Some ''j'') (trackingPage ?xs))))
         = map (\<lambda>t. (fst t - 5000, snd t)) (filter (\<lambda>t. \<not> fst t \<le> 5000) (timers (trackingPage ?xs)))"
    using th by simp
  have items: "progressItems (stateOf (handleProgressError ?xs ''boom'' (Some ''j'') (trackingPage ?xs)))
     = [(job ''j'' ''failed'')\<lparr>error := Some ''boom''\<rparr>, job ''k'' ''crawling'']"
    and snap: "snapshots (stateOf (handleProgressError ?xs ''boom'' (Some ''j'') (trackingPage ?xs))) ''j'' = None"
    and act: "activeCrawls (stateOf (handleProgressError ?xs ''boom'' (Some ''j'') (trackingPage ?xs)))
     = Some (Json [''k''])"
    by (simp_all add: e)
  show ?thesis
    using th5 by (simp add: items snap act f) (simp add: job_def)
qed

subsection \<open>C8: stopping a job\<close>




subsection \<open>C7: which ids are stale\<close>

text \<open>
  C7 says that an id is marked stale when its snapshot is missing or does not
  parse, has a terminal status or is older than five minutes, and that every
  other id is queued. The code also marks the status \<^verbatim>\<open>error\<close>, which is
  not among the terminal ones: a fresh snapshot with that status is pushed to
  the stale ids and not queued.
\<close>

theorem error_status_not_queued_counterexample:
  "\<not> claimedStale 1000 (Some (Json ((job ''e'' ''error'')\<lparr>startedAt := Some 1000\<rparr>))) \<and>
   classifyLoop 1000 [''e'' \<mapsto> Json ((job ''e'' ''error'')\<lparr>startedAt := Some 1000\<rparr>)] [''e''] [] []
     = ([], [''e''])"
  by (simp add: claimedStale_def terminal_def age_def fiveMinutes_def job_def isCompleted_def)

text \<open>
  C7, as the code has it, for a persisted list that can be read. The ids
  pushed to \<^verbatim>\<open>staleItems\<close> are those whose snapshot is missing, empty or
  unparsable, has status \<^verbatim>\<open>completed\<close>, \<^verbatim>\<open>failed\<close>, \<^verbatim>\<open>cancelled\<close> or
  \<^verbatim>\<open>error\<close>, or is older than five minutes; the other ids, in order, are
  queued with the verification flag set. The reconciliation returns; every
  stale id has lost its snapshot and its entry in the persisted list; and on
  a page that tracked nothing, whatever is tracked afterwards was queued and
  then confirmed by the server.
\<close>

theorem startup_classification:
  assumes "parseActive (activeCrawls w) = Some xs"
  shows
   "snd (classifyLoop now (snapshots w) xs [] []) = filter (\<lambda>pid. markedStale now (snapshots w pid)) xs \<and>
    map progressId (fst (classifyLoop now (snapshots w) xs [] []))
      = filter (\<lambda>pid. \<not> markedStale now (snapshots w pid)) xs \<and>
    (\<forall>x \<in> set (fst (classifyLoop now (snapshots w) xs [] [])). needsVerification x) \<and>
    returns (reconcileOnStartup now fetch w) \<and>
    (\<forall>pid \<in> set xs. markedStale now (snapshots w pid) \<longrightarrow>
        snapshots (stateOf (reconcileOnStartup now fetch w)) pid = None \<and>
        (\<exists>ys. parseActive (activeCrawls (stateOf (reconcileOnStartup now fetch w))) = Some ys
              \<and> pid \<notin> set ys)) \<and>
    (progressItems w = [] \<longrightarrow>
       (\<forall>x \<in> set (progressItems (stateOf (reconcileOnStartup now fetch w))).
           \<not> markedStale now (snapshots w (progressId x)) \<and> confirmed (fetch (progressId x))))"
proof -
  let ?w' = "stateOf (reconcileOnStartup now fetch w)"
  have a: "snd (classifyLoop now (snapshots w) xs [] []) = filter (\<lambda>pid. markedStale now (snapshots w pid)) xs"
    by (simp add: classifyLoop_closed staleIds_marked)
  have b: "map progressId (fst (classifyLoop now (snapshots w) xs [] []))
      = filter (\<lambda>pid. \<not> markedStale now (snapshots w pid)) xs"
    by (simp add: classifyLoop_closed queuedItems_marked)
  have c: "\<forall>x \<in> set (fst (classifyLoop now (snapshots w) xs [] [])). needsVerification x"
    using queuedItems_shape [of _ now "snapshots w" xs] by (simp add: classifyLoop_closed)
  have d: "returns (reconcileOnStartup now fetch w)"
    by (rule reconcile_result(1) [OF assms])
  have e: "snapshots ?w' pid = None \<and>
        (\<exists>ys. parseActive (activeCrawls ?w') = Some ys \<and> pid \<notin> set ys)"
    if "pid \<in> set xs" "markedStale now (snapshots w pid)" for pid
  proof -
    have st: "pid \<in> set (staleIds now (snapshots w) xs)"
      using that by (simp add: staleIds_marked)
    then have "snapshots ?w' pid = None"
      by (simp add: reconcile_result(3) [OF assms])
    moreover have "pid \<notin> set (filter (\<lambda>id. id \<notin> set (goneIds fetch (queuedItems now (snapshots w) xs)))
                  (filter (\<lambda>id. id \<notin> set (staleIds now (snapshots w) xs)) xs))"
      using st by simp
    ultimately show ?thesis
      using reconcile_result(2) [OF assms, of now fetch] by blast
  qed
  have f: "\<not> markedStale now (snapshots w (progressId x)) \<and> confirmed (fetch (progressId x))"
    if "progressItems w = []" "x \<in> set (progressItems ?w')" for x
    using tracked_after_reconcile [OF assms that] queuedItems_shape [of x now "snapshots w" xs]
    by blast
  from a b c d e f show ?thesis by blast
qed

theorem startup_classification_witness:
  "snd (classifyLoop 1000000 (snapshots threeJobs) [''a'', ''b'', ''c''] [] []) = [''a'', ''b''] \<and>
   map progressId (fst (classifyLoop 1000000 (snapshots threeJobs) [''a'', ''b'', ''c''] [] [])) = [''c''] \<and>
   returns (reconcileOnStartup 1000000 (\<lambda>pid. Http 200) threeJobs) \<and>
   snapshots (stateOf (reconcileOnStartup 1000000 (\<lambda>pid. Http 200) threeJobs)) ''a'' = None \<and>
   snapshots (stateOf (reconcileOnStartup 1000000 (\<lambda>pid. Http 200) threeJobs)) ''b'' = None"
  using startup_classification [OF threeJobs_fields(1), of 1000000 "\<lambda>pid. Http 200"] threeJobs_marks
  by simp

subsection \<open>C2: the clean-up writes the list once\<close>

text \<open>
  C2 says that the persisted list ends as \<open>[C]\<close> if \<open>C\<close> was verified and
  empty if it was not. The verification removes an id only on status 404 or
  when the request fails: with status 503 for job \<open>c\<close> the server has not
  confirmed the job, nothing is tracked, and the persisted list still reads
  \<open>[c]\<close>.
\<close>

theorem unverified_id_stays_listed_counterexample:
  "\<not> confirmed ((\<lambda>pid. Http 503) ''c'') \<and>
   progressItems (stateOf (reconcileOnStartup 1000000 (\<lambda>pid. Http 503) threeJobs)) = [] \<and>
   parseActive (activeCrawls (stateOf (reconcileOnStartup 1000000 (\<lambda>pid. Http 503) threeJobs)))
     = Some [''c''] \<and>
   Some [''c''] \<noteq> Some ([] :: string list)"
  by (simp add: reconcile_result(2,4) [OF threeJobs_fields(1)] threeJobs_loops confirmedItems_def
      goneIds_def confirmed_def gone_def ok_def threeJobs_fields job_def)

text \<open>
  C2, as the code has it. Let the persisted list be \<open>[A, B, C]\<close>, the
  snapshot of \<open>A\<close> terminal, that of \<open>B\<close> older than five minutes, that of
  \<open>C\<close> neither finished nor old. The reconciliation returns and the
  snapshots of \<open>A\<close> and \<open>B\<close> are gone. If the server confirms \<open>C\<close>, the
  persisted list reads \<open>[C]\<close>, the snapshot of \<open>C\<close> is kept, the job is
  tracked, and the list was written once, with both removals applied. If
  \<open>C\<close> is gone (status 404, or the request failed), the persisted list reads
  empty, the snapshot of \<open>C\<close> is deleted, the tracked list is as before, and
  the list was written twice, once for each phase of the clean-up. On any
  other answer the persisted list reads \<open>[C]\<close>, the snapshot of \<open>C\<close> is
  kept, the tracked list is as before, and the list was written once.
\<close>

theorem cleanup_in_one_write:
  assumes "activeCrawls w = Some (Json [A, B, C])"
    and "snapshots w A = Some (Json sa)" and "terminal (status sa)"
    and "snapshots w B = Some (Json sb)" and "age now sb > fiveMinutes"
    and "snapshots w C = Some (Json sc)" and "\<not> markedStale now (snapshots w C)"
  shows "returns (reconcileOnStartup now fetch w) \<and>
    snapshots (stateOf (reconcileOnStartup now fetch w)) A = None \<and>
    snapshots (stateOf (reconcileOnStartup now fetch w)) B = None \<and>
    (confirmed (fetch C) \<longrightarrow>
       parseActive (activeCrawls (stateOf (reconcileOnStartup now fetch w))) = Some [C] \<and>
       snapshots (stateOf (reconcileOnStartup now fetch w)) C = Some (Json sc) \<and>
       activeWrites (stateOf (reconcileOnStartup now fetch w)) = activeWrites w @ [[C]] \<and>
       progressItems (stateOf (reconcileOnStartup now fetch w))
         = [sc\<lparr>progressId := C, needsVerification := True\<rparr>]) \<and>
    (gone (fetch C) \<longrightarrow>
       parseActive (activeCrawls (stateOf (reconcileOnStartup now fetch w))) = Some [] \<and>
       snapshots (stateOf (reconcileOnStartup now fetch w)) C = None \<and>
       activeWrites (stateOf (reconcileOnStartup now fetch w)) = activeWrites w @ [[C], []] \<and>
       progressItems (stateOf (reconcileOnStartup now fetch w)) = progressItems w) \<and>
    (\<not> confirmed (fetch C) \<and> \<not> gone (fetch C) \<longrightarrow>
       parseActive (activeCrawls (stateOf (reconcileOnStartup now fetch w))) = Some [C] \<and>
       snapshots (stateOf (reconcileOnStartup now fetch w)) C = Some (Json sc) \<and>
       activeWrites (stateOf (reconcileOnStartup now fetch w)) = activeWrites w @ [[C]] \<and>
       progressItems (stateOf (reconcileOnStartup now fetch w)) = progressItems w)"
proof -
  let ?w' = "stateOf (reconcileOnStartup now fetch w)"
  let ?item = "sc\<lparr>progressId := C, needsVerification := True\<rparr>"
  have xs: "parseActive (activeCrawls w) = Some [A, B, C]"
    using assms(1) by simp
  have mA: "markedStale now (snapshots w A)"
    using assms(2,3) by (simp add: markedStale_def)
  have mB: "markedStale now (snapshots w B)"
    using assms(4,5) by (simp add: markedStale_def)
  have AC: "A \<noteq> C" and BC: "B \<noteq> C"
    using mA mB assms(7) by auto
  have st: "staleIds now (snapshots w) [A, B, C] = [A, B]"
    using mA mB assms(7) by (simp add: staleIds_marked)
  have qC: "queued now (snapshots w) C = Some ?item"
    by (rule queued_unmarked [where snaps = "snapshots w" and pid = C, OF assms(6,7)])
  have q: "queuedItems now (snapshots w) [A, B, C] = [?item]"
    using mA mB qC assms(7) by (simp add: queuedItems_def map_filter_def queued_None_iff)
  have g: "goneIds fetch (queuedItems now (snapshots w) [A, B, C])
           = (if gone (fetch C) then [C] else [])"
    by (simp add: q goneIds_def)
  have c: "confirmedItems fetch (queuedItems now (snapshots w) [A, B, C])
           = (if confirmed (fetch C) then [?item] else [])"
    by (simp add: q confirmedItems_def)
  have one: "setProgressItems (Items [?item]) [] = [?item]"
    by (simp add: setProgressItems_def newMap_def)
  note r = reconcile_result [OF xs, of now fetch]
  have ret: "returns (reconcileOnStartup now fetch w)" by (rule r(1))
  have sA: "snapshots ?w' A = None" by (simp add: r(3) st)
  have sB: "snapshots ?w' B = None" by (simp add: r(3) st)
  have kept: "parseActive (activeCrawls ?w') = Some [C] \<and> snapshots ?w' C = Some (Json sc) \<and>
       activeWrites ?w' = activeWrites w @ [[C]] \<and> progressItems ?w' = [?item]"
    if "confirmed (fetch C)"
    using that confirmed_not_gone [OF that] AC BC assms(6) by (simp add: r(2,3,4,5) st g c one)
  have dropped: "parseActive (activeCrawls ?w') = Some [] \<and> snapshots ?w' C = None \<and>
       activeWrites ?w' = activeWrites w @ [[C], []] \<and> progressItems ?w' = progressItems w"
    if "gone (fetch C)"
  proof -
    have "\<not> confirmed (fetch C)" using that confirmed_not_gone by blast
    then show ?thesis using that AC BC by (simp add: r(2,3,4,5) st g c)
  qed
  have neither: "parseActive (activeCrawls ?w') = Some [C] \<and> snapshots ?w' C = Some (Json sc) \<and>
       activeWrites ?w' = activeWrites w @ [[C]] \<and> progressItems ?w' = progressItems w"
    if "\<not> confirmed (fetch C)" "\<not> gone (fetch C)"
    using that AC BC assms(6) by (simp add: r(2,3,4,5) st g c)
  from ret sA sB kept dropped neither show ?thesis by blast
qed

theorem cleanup_in_one_write_witness:
  "parseActive (activeCrawls (stateOf (reconcileOnStartup 1000000 (\<lambda>pid. Http 200) threeJobs))) = Some [''c''] \<and>
   activeWrites (stateOf (reconcileOnStartup 1000000 (\<lambda>pid. Http 200) threeJobs)) = [[''c'']] \<and>
   parseActive (activeCrawls (stateOf (reconcileOnStartup 1000000 (\<lambda>pid. Http 404) threeJobs))) = Some [] \<and>
   activeWrites (stateOf (reconcileOnStartup 1000000 (\<lambda>pid. Http 404) threeJobs)) = [[''c''], []] \<and>
   parseActive (activeCrawls (stateOf (reconcileOnStartup 1000000 (\<lambda>pid. NetworkFailure) threeJobs))) = Some [] \<and>
   parseActive (activeCrawls (stateOf (reconcileOnStartup 1000000 (\<lambda>pid. Http 503) threeJobs))) = Some [''c''] \<and>
   activeWrites (stateOf (reconcileOnStartup 1000000 (\<lambda>pid. Http 503) threeJobs)) = [[''c'']] \<and>
   progressItems (stateOf (reconcileOnStartup 1000000 (\<lambda>pid. Http 503) threeJobs)) = [] \<and>
   snapshots (stateOf (reconcileOnStartup 1000000 (\<lambda>pid. Http 200) threeJobs)) ''a'' = None \<and>
   snapshots (stateOf (reconcileOnStartup 1000000 (\<lambda>pid. Http 200) threeJobs)) ''b'' = None"
proof -
  have t: "terminal (status ((job ''a'' ''completed'')\<lparr>startedAt := Some 900000\<rparr>))"
    by (simp add: terminal_def job_def)
  have o: "age 1000000 ((job ''b'' ''crawling'')\<lparr>startedAt := Some 1000\<rparr>) > fiveMinutes"
    by (simp add: age_def fiveMinutes_def job_def)
  note th = cleanup_in_one_write [OF threeJobs_fields(2) threeJobs_fields(6) t
      threeJobs_fields(7) o threeJobs_fields(8) threeJobs_marks(3)]
  show ?thesis
    using th [of "\<lambda>pid. Http 200"] th [of "\<lambda>pid. Http 404"] th [of "\<lambda>pid. NetworkFailure"]
      th [of "\<lambda>pid. Http 503"]
    by (simp add: confirmed_def gone_def ok_def threeJobs_fields)
qed

subsection \<open>C3: what the verification does with an id\<close>

text \<open>
  C3 says that a confirmed job comes back with status \<^verbatim>\<open>reconnecting\<close>. The
  verification keeps the status that was persisted: job \<open>c\<close> was stored as
  \<^verbatim>\<open>crawling\<close> and is tracked as \<^verbatim>\<open>crawling\<close> after the server has
  confirmed it.
\<close>

theorem restored_status_counterexample:
  "map status (progressItems (stateOf (reconcileOnStartup 1000000 (\<lambda>pid. Http 200) threeJobs)))
     = [Some ''crawling''] \<and>
   trackedIds (stateOf (reconcileOnStartup 1000000 (\<lambda>pid. Http 200) threeJobs)) = [''c''] \<and>
   Some ''crawling'' \<noteq> Some ''reconnecting''"
proof -
  note q = threeJobs_loops(1)
  show ?thesis
    by (simp add: reconcile_result(4) [OF threeJobs_fields(1)] q confirmedItems_def confirmed_def
        ok_def setProgressItems_def newMap_def job_def)
qed

text \<open>
  C3, as the code has it, for a queued id with its parsed snapshot. When the
  job is gone (status 404, or the request failed), its snapshot is deleted and
  the id leaves the persisted list in the last write of the reconciliation,
  which holds the list that is stored at the end; the reconciliation writes
  the list at most twice, once for the stale ids and once for the ids that
  are gone. When the server confirms the job, it is tracked again, as the
  parsed snapshot with its id and the verification flag set, so with the
  status that was persisted.
\<close>

theorem verification_outcomes:
  assumes "parseActive (activeCrawls w) = Some xs" and "pid \<in> set xs"
    and "snapshots w pid = Some (Json parsed)" and "\<not> markedStale now (snapshots w pid)"
  shows "returns (reconcileOnStartup now fetch w) \<and>
    (gone (fetch pid) \<longrightarrow>
       snapshots (stateOf (reconcileOnStartup now fetch w)) pid = None \<and>
       (\<exists>ys. parseActive (activeCrawls (stateOf (reconcileOnStartup now fetch w))) = Some ys \<and>
             pid \<notin> set ys \<and>
             last (activeWrites (stateOf (reconcileOnStartup now fetch w))) = ys) \<and>
       length (activeWrites (stateOf (reconcileOnStartup now fetch w))) \<le> length (activeWrites w) + 2) \<and>
    (confirmed (fetch pid) \<longrightarrow>
       pid \<in> set (trackedIds (stateOf (reconcileOnStartup now fetch w))) \<and>
       (\<forall>x \<in> set (progressItems (stateOf (reconcileOnStartup now fetch w))).
           progressId x = pid \<longrightarrow>
             x = parsed\<lparr>progressId := pid, needsVerification := True\<rparr> \<and> status x = status parsed))"
proof -
  let ?w' = "stateOf (reconcileOnStartup now fetch w)"
  let ?q = "queuedItems now (snapshots w) xs"
  let ?st = "staleIds now (snapshots w) xs"
  let ?item = "parsed\<lparr>progressId := pid, needsVerification := True\<rparr>"
  note r = reconcile_result [OF assms(1), of now fetch]
  have qp: "queued now (snapshots w) pid = Some ?item"
    by (rule queued_unmarked [where snaps = "snapshots w" and pid = pid, OF assms(3,4)])
  have inq: "?item \<in> set ?q"
    using assms(2) qp by (auto simp: queuedItems_mem)
  have only: "x = ?item" if "x \<in> set ?q" "progressId x = pid" for x
    using queuedItems_shape [OF that(1)] that(2) assms(3) by auto
  have ret: "returns (reconcileOnStartup now fetch w)" by (rule r(1))
  have removed: "snapshots ?w' pid = None \<and>
       (\<exists>ys. parseActive (activeCrawls ?w') = Some ys \<and> pid \<notin> set ys \<and> last (activeWrites ?w') = ys) \<and>
       length (activeWrites ?w') \<le> length (activeWrites w) + 2" if g: "gone (fetch pid)"
  proof -
    have ing: "pid \<in> set (goneIds fetch ?q)"
      using inq g by (force simp: goneIds_def)
    then have ne: "goneIds fetch ?q \<noteq> []" by auto
    have s: "snapshots ?w' pid = None" using ing by (simp add: r(3))
    let ?ys = "filter (\<lambda>id. id \<notin> set (goneIds fetch ?q)) (filter (\<lambda>id. id \<notin> set ?st) xs)"
    have "parseActive (activeCrawls ?w') = Some ?ys" by (rule r(2))
    moreover have "pid \<notin> set ?ys" using ing by simp
    moreover have "last (activeWrites ?w') = ?ys" using ne by (simp add: r(5))
    moreover have "length (activeWrites ?w') \<le> length (activeWrites w) + 2"
      by (simp add: r(5))
    ultimately show ?thesis using s by blast
  qed
  have restored: "pid \<in> set (trackedIds ?w') \<and>
       (\<forall>x \<in> set (progressItems ?w'). progressId x = pid \<longrightarrow> x = ?item \<and> status x = status parsed)"
    if c: "confirmed (fetch pid)"
  proof -
    let ?c = "confirmedItems fetch ?q"
    have inc: "?item \<in> set ?c" using inq c by (simp add: confirmedItems_def)
    then have ne: "?c \<noteq> []" by auto
    have items: "progressItems ?w' = setProgressItems (Items ?c) []"
      using ne by (simp add: r(4))
    have "progressId ` set (progressItems ?w') = progressId ` set ?c"
      by (simp only: items setProgressItems_ids)
    moreover have "pid \<in> progressId ` set ?c" using inc by force
    ultimately have tracked: "pid \<in> set (trackedIds ?w')" by simp
    have sub: "set (progressItems ?w') \<subseteq> set ?q"
      using setProgressItems_subset [of ?c "[]"] by (auto simp: items confirmedItems_def)
    have "x = ?item \<and> status x = status parsed"
      if "x \<in> set (progressItems ?w')" "progressId x = pid" for x
    proof -
      have "x = ?item" using only [of x] that sub by blast
      then show ?thesis by simp
    qed
    with tracked show ?thesis by blast
  qed
  from ret removed restored show ?thesis by blast
qed

theorem verification_outcomes_witness:
  "progressItems (stateOf (reconcileOnStartup 1000000 (\<lambda>pid. Http 200) threeJobs))
     = [(job ''c'' ''crawling'')\<lparr>startedAt := Some 900000, needsVerification := True\<rparr>] \<and>
   snapshots (stateOf (reconcileOnStartup 1000000 (\<lambda>pid. Http 404) threeJobs)) ''c'' = None \<and>
   snapshots (stateOf (reconcileOnStartup 1000000 (\<lambda>pid. NetworkFailure) threeJobs)) ''c'' = None \<and>
   parseActive (activeCrawls (stateOf (reconcileOnStartup 1000000 (\<lambda>pid. Http 404) threeJobs))) = Some []"
proof -
  have c: "''c'' \<in> set [''a'', ''b'', ''c'']" by simp
  note th = verification_outcomes [OF threeJobs_fields(1) c threeJobs_fields(8) threeJobs_marks(3)]
  note q = threeJobs_loops(1)
  note st = threeJobs_loops(2)
  have items: "progressItems (stateOf (reconcileOnStartup 1000000 (\<lambda>pid. Http 200) threeJobs))
     = [(job ''c'' ''crawling'')\<lparr>startedAt := Some 900000, needsVerification := True\<rparr>]"
    by (simp add: reconcile_result(4) [OF threeJobs_fields(1)] q confirmedItems_def confirmed_def
        ok_def setProgressItems_def newMap_def job_def)
  have act: "parseActive (activeCrawls (stateOf (reconcileOnStartup 1000000 (\<lambda>pid. Http 404) threeJobs))) = Some []"
    by (simp add: reconcile_result(2) [OF threeJobs_fields(1)] q st goneIds_def gone_def ok_def job_def)
  show ?thesis
    using th [of "\<lambda>pid. Http 404"] th [of "\<lambda>pid. NetworkFailure"] items act
    by (simp add: gone_def ok_def)
qed

subsection \<open>C10: an answer that is neither success nor 404\<close>

text \<open>
  C10. Let a queued id get an answer with a status outside 200..299 and other
  than 404, on a page that tracks nothing yet. The reconciliation returns; the
  job is not tracked afterwards; its snapshot exists and is left as it was;
  the id is still in the persisted list; and no toast is shown.
\<close>

theorem other_answer_defers_cleanup:
  assumes "parseActive (activeCrawls w) = Some xs" and "pid \<in> set xs"
    and "\<not> markedStale now (snapshots w pid)"
    and "fetch pid = Http code" and "\<not> ok code" and "code \<noteq> 404"
    and "progressItems w = []"
  shows "returns (reconcileOnStartup now fetch w) \<and>
    pid \<notin> set (trackedIds (stateOf (reconcileOnStartup now fetch w))) \<and>
    snapshots w pid \<noteq> None \<and>
    snapshots (stateOf (reconcileOnStartup now fetch w)) pid = snapshots w pid \<and>
    (\<exists>ys. parseActive (activeCrawls (stateOf (reconcileOnStartup now fetch w))) = Some ys \<and>
          pid \<in> set ys) \<and>
    toasts (stateOf (reconcileOnStartup now fetch w)) = toasts w"
proof -
  let ?w' = "stateOf (reconcileOnStartup now fetch w)"
  let ?q = "queuedItems now (snapshots w) xs"
  let ?st = "staleIds now (snapshots w) xs"
  note r = reconcile_result [OF assms(1), of now fetch]
  have ng: "\<not> gone (fetch pid)" and nc: "\<not> confirmed (fetch pid)"
    using assms(4,5,6) by (simp_all add: gone_def confirmed_def)
  have nst: "pid \<notin> set ?st" using assms(3) by (simp add: staleIds_marked)
  have ngo: "pid \<notin> set (goneIds fetch ?q)" using ng by (auto simp: goneIds_def)
  have untracked: "pid \<notin> set (trackedIds ?w')"
    using tracked_after_reconcile [OF assms(1) assms(7), of _ now fetch] nc by auto
  have stored: "snapshots w pid \<noteq> None"
    using assms(3) by (auto simp: markedStale_def split: option.splits)
  have same: "snapshots ?w' pid = snapshots w pid"
    using nst ngo by (simp add: r(3))
  have "pid \<in> set (filter (\<lambda>id. id \<notin> set (goneIds fetch ?q)) (filter (\<lambda>id. id \<notin> set ?st) xs))"
    using assms(2) nst ngo by simp
  then have listed: "\<exists>ys. parseActive (activeCrawls ?w') = Some ys \<and> pid \<in> set ys"
    using r(2) by blast
  from r(1) untracked stored same listed reconcile_toasts [of now fetch w] show ?thesis
    by (intro conjI)
qed

theorem other_answer_defers_cleanup_witness:
  "progressItems (stateOf (reconcileOnStartup 1000000 (\<lambda>pid. Http 500) threeJobs)) = [] \<and>
   snapshots (stateOf (reconcileOnStartup 1000000 (\<lambda>pid. Http 500) threeJobs)) ''c''
     = Some (Json ((job ''c'' ''crawling'')\<lparr>startedAt := Some 900000\<rparr>)) \<and>
   parseActive (activeCrawls (stateOf (reconcileOnStartup 1000000 (\<lambda>pid. Http 500) threeJobs)))
     = Some [''c'']"
proof -
  have c: "''c'' \<in> set [''a'', ''b'', ''c'']" by simp
  have f: "(\<lambda>pid. Http 500) ''c'' = Http 500" "\<not> ok 500" "(500::nat) \<noteq> 404"
    by (simp_all add: ok_def)
  note th = other_answer_defers_cleanup [OF threeJobs_fields(1) c threeJobs_marks(3) f
      threeJobs_fields(3)]
  note q = threeJobs_loops(1)
  note st = threeJobs_loops(2)
  have items: "progressItems (stateOf (reconcileOnStartup 1000000 (\<lambda>pid. Http 500) threeJobs)) = []"
    by (simp add: reconcile_result(4) [OF threeJobs_fields(1)] q confirmedItems_def confirmed_def
        ok_def threeJobs_fields)
  have act: "parseActive (activeCrawls (stateOf (reconcileOnStartup 1000000 (\<lambda>pid. Http 500) threeJobs)))
     = Some [''c'']"
    by (simp add: reconcile_result(2) [OF threeJobs_fields(1)] q st goneIds_def gone_def ok_def job_def)
  show ?thesis using th items act by (simp add: threeJobs_fields)
qed

end
